theory Spec2Isabelle
  imports Main
begin

section \<open>The embed builder of disgobed (embed.go)\<close>

text \<open>
  embed.go wraps the raw embed of the disgord library in a builder whose setters
  act by reference: every method has a pointer receiver, changes the object behind it
  and returns that same pointer. The model keeps the pointers. Objects live in a
  store, one list per Go type, an address is an index into its list, and a pointer
  is an address or nil. Dereferencing nil is a run-time panic in Go; it is a value
  of the model, so that every method returns either a panic or its result together
  with the store it leaves behind.
\<close>

subsection \<open>Pointers, panics and the store primitives\<close>

type_synonym addr = nat

type_synonym ptr = "addr option"

datatype panic = NilPointerDereference

definition andThen :: "panic + 'a \<Rightarrow> ('a \<Rightarrow> panic + 'b) \<Rightarrow> panic + 'b" where
  "andThen r k = (case r of Inl p \<Rightarrow> Inl p | Inr x \<Rightarrow> k x)"

text \<open>
  Reading through a pointer. Go has no dangling pointers, so an address outside the
  store cannot arise from a Go program; the model treats it like nil.
\<close>

definition load :: "'a list \<Rightarrow> ptr \<Rightarrow> panic + 'a" where
  "load m p =
     (case p of
        None \<Rightarrow> Inl NilPointerDereference
      | Some a \<Rightarrow> if a < length m then Inr (m ! a) else Inl NilPointerDereference)"

definition modify :: "('a \<Rightarrow> 'a) \<Rightarrow> ptr \<Rightarrow> 'a list \<Rightarrow> panic + 'a list" where
  "modify f p m =
     (case p of
        None \<Rightarrow> Inl NilPointerDereference
      | Some a \<Rightarrow> if a < length m then Inr (m[a := f (m ! a)]) else Inl NilPointerDereference)"

definition live :: "'a list \<Rightarrow> ptr \<Rightarrow> bool" where
  "live m p = (case p of None \<Rightarrow> False | Some a \<Rightarrow> a < length m)"

subsection \<open>Errors\<close>

text \<open>
  Modelled from the spec: the format strings handed to \<^verbatim>\<open>fmt.Errorf\<close> are constants
  declared outside embed.go. Each one is kept as a symbolic name, and an error is the
  template together with the values formatted into it. Section 7 of the specification
  names the kind of error each template reports; \<open>errorKind\<close> records that reading.
\<close>

datatype template =
    characterCountExceedsLimitErrTemplateString
  | characterCountExceedsLimitLongErrTemplateString
  | valueNotBetweenErrTemplateString
  | fieldLimitReachedErrTemplateString
  | invalidEmbedTypeErrTemplateString

datatype fmtValue = StrArg string | IntArg int

datatype error = Errorf template "fmtValue list"

datatype kind = LimitExceeded | ValueOutOfRange | CollectionLimitReached | InvalidEnumValue

fun errorKind :: "error \<Rightarrow> kind" where
  "errorKind (Errorf characterCountExceedsLimitErrTemplateString vs) = LimitExceeded"
| "errorKind (Errorf characterCountExceedsLimitLongErrTemplateString vs) = LimitExceeded"
| "errorKind (Errorf valueNotBetweenErrTemplateString vs) = ValueOutOfRange"
| "errorKind (Errorf fieldLimitReachedErrTemplateString vs) = CollectionLimitReached"
| "errorKind (Errorf invalidEmbedTypeErrTemplateString vs) = InvalidEnumValue"

subsection \<open>The limits\<close>

text \<open>
  Modelled from the spec: the four limits are constants declared outside embed.go.
  Their values are those of sections 4.1 and 8 of the specification, which the
  comments of SetTitle, SetDescription, SetColor and AddRawField repeat (256 and
  2048 characters, colours between 0 and 16777215, 25 fields).
\<close>

definition lowerCharLimit :: int where
  "lowerCharLimit = 256"

definition upperCharLimit :: int where
  "upperCharLimit = 2048"

definition maxColorValue :: int where
  "maxColorValue = 16777216"

definition maxFieldCount :: int where
  "maxFieldCount = 25"

text \<open>
  Modelled from the spec: \<^verbatim>\<open>checkTypeValid\<close> is defined outside embed.go. The
  specification says that a type name is accepted when it belongs to the platform's
  fixed enumeration of valid embed types, which the schema library supplies; the
  enumeration is the parameter \<open>validTypes\<close>.
\<close>

definition checkTypeValid :: "string list \<Rightarrow> string \<Rightarrow> bool" where
  "checkTypeValid validTypes embedType = (embedType \<in> set validTypes)"

subsection \<open>The data\<close>

text \<open>
  A Go string is a sequence of bytes and \<^verbatim>\<open>len\<close> counts them, as \<open>length\<close> does on a
  \<open>string\<close>. A Go \<^verbatim>\<open>int\<close> is a machine integer; embed.go compares and stores such
  values and never computes with them, so they are integers here.

  A \<^verbatim>\<open>time.Time\<close> is an instant with a location; \<^verbatim>\<open>UTC()\<close> keeps the instant and
  sets the location.
\<close>

record Time =
  instant :: int
  location :: string

definition UTC :: "Time \<Rightarrow> Time" where
  "UTC t = t\<lparr>location := ''UTC''\<rparr>"

text \<open>
  The raw objects of the disgord library: \<^verbatim>\<open>disgord.EmbedField\<close> and \<^verbatim>\<open>disgord.Embed\<close>.
  The nested fragments of an embed are held by pointer and its fields are a slice of
  pointers. embed.go reads or writes nothing inside a footer, image, thumbnail, video,
  provider or author, so those objects stay addresses only.
\<close>

record disgord_EmbedField =
  Name :: string
  Value :: string
  Inline :: bool

record disgord_Embed =
  Title :: string
  Type :: string
  Description :: string
  URL :: string
  Timestamp :: Time
  Color :: int
  Footer :: ptr
  Image :: ptr
  Thumbnail :: ptr
  Video :: ptr
  Provider :: ptr
  Author :: ptr
  Fields :: "ptr list"

text \<open>
  The builder: \<^verbatim>\<open>type Embed struct { *disgord.Embed; Errors *[]error }\<close>. \<open>Errors\<close> is
  \<open>None\<close> for the nil pointer and \<open>Some es\<close> for a pointer to the slice \<open>es\<close>. Only the
  builder writes through that pointer, and Finalize hands it out and forgets it at
  once, so the slice is kept by value.
\<close>

record Embed =
  Embed :: ptr
  Errors :: "error list option"

text \<open>
  Modelled from the spec: the builders Field, Author, Thumbnail, Footer, Video, Image
  and Provider are defined outside embed.go. Section 4.2 of the specification gives
  them all one shape: each wraps one raw fragment and accumulates errors the way the
  embed builder does.
\<close>

record SubBuilder =
  Fragment :: ptr
  SubErrors :: "error list option"

record heap =
  embedBuilders :: "Embed list"
  rawEmbeds :: "disgord_Embed list"
  rawFields :: "disgord_EmbedField list"
  subBuilders :: "SubBuilder list"

definition emptyHeap :: heap where
  "emptyHeap = \<lparr>embedBuilders = [], rawEmbeds = [], rawFields = [], subBuilders = []\<rparr>"

text \<open>What a builder handle stands for in a store: its struct, and the raw embed it wraps.\<close>

definition builderAt :: "heap \<Rightarrow> ptr \<Rightarrow> panic + Embed" where
  "builderAt h e = load (embedBuilders h) e"

definition rawAt :: "heap \<Rightarrow> ptr \<Rightarrow> panic + disgord_Embed" where
  "rawAt h e = andThen (load (embedBuilders h) e) (\<lambda>b. load (rawEmbeds h) (Embed b))"

definition errorList :: "error list option \<Rightarrow> error list" where
  "errorList es = (case es of None \<Rightarrow> [] | Some xs \<Rightarrow> xs)"

subsection \<open>Creation, Finalize and the error accumulator\<close>

text \<open>The zero value of \<^verbatim>\<open>disgord.Embed\<close>.\<close>

definition zeroEmbed :: disgord_Embed where
  "zeroEmbed =
     \<lparr>Title = [], Type = [], Description = [], URL = [],
      Timestamp = \<lparr>instant = 0, location = ''UTC''\<rparr>, Color = 0,
      Footer = None, Image = None, Thumbnail = None, Video = None, Provider = None,
      Author = None, Fields = []\<rparr>"

definition NewEmbed :: "heap \<Rightarrow> ptr \<times> heap" where
  "NewEmbed h =
     (let raw = length (rawEmbeds h);
          res = length (embedBuilders h)
      in (Some res,
          h\<lparr>rawEmbeds := rawEmbeds h @ [zeroEmbed],
            embedBuilders := embedBuilders h @ [\<lparr>Embed = Some raw, Errors = None\<rparr>]\<rparr>))"

text \<open>
  Finalize evaluates \<^verbatim>\<open>e.Embed, e.Errors\<close>, then the deferred function sets
  \<^verbatim>\<open>e.Errors = nil\<close>.
\<close>

definition Finalize :: "ptr \<Rightarrow> heap \<Rightarrow> panic + ((ptr \<times> error list option) \<times> heap)" where
  "Finalize e h =
     andThen (load (embedBuilders h) e) (\<lambda>b.
     andThen (modify (\<lambda>b. b\<lparr>Errors := None\<rparr>) e (embedBuilders h)) (\<lambda>m.
     Inr ((Embed b, Errors b), h\<lparr>embedBuilders := m\<rparr>)))"

definition addRawError :: "error \<Rightarrow> ptr \<Rightarrow> heap \<Rightarrow> panic + heap" where
  "addRawError err e h =
     andThen (modify (\<lambda>b. if Errors b = None then b\<lparr>Errors := Some []\<rparr> else b) e (embedBuilders h)) (\<lambda>m.
     andThen (modify (\<lambda>b. b\<lparr>Errors := Some (errorList (Errors b) @ [err])\<rparr>) e m) (\<lambda>m'.
     Inr (h\<lparr>embedBuilders := m'\<rparr>)))"

definition addError :: "template \<Rightarrow> fmtValue list \<Rightarrow> ptr \<Rightarrow> heap \<Rightarrow> panic + heap" where
  "addError format values e h = addRawError (Errorf format values) e h"

fun addEachRawError :: "error list \<Rightarrow> ptr \<Rightarrow> heap \<Rightarrow> panic + heap" where
  "addEachRawError [] e h = Inr h"
| "addEachRawError (err # errs) e h = andThen (addRawError err e h) (addEachRawError errs e)"

definition addAllRawErrors :: "error list option \<Rightarrow> ptr \<Rightarrow> heap \<Rightarrow> panic + heap" where
  "addAllRawErrors errs e h =
     (case errs of None \<Rightarrow> Inr h | Some es \<Rightarrow> addEachRawError es e h)"

text \<open>
  Modelled from the spec: the Finalize of a sub-object builder (Field, Author,
  Thumbnail, Footer, Video, Image, Provider) is defined outside embed.go. Section 4.2
  of the specification: it returns the raw fragment and the error list or nil, and
  clears the builder's own error list, as \<open>Finalize\<close> above does for the embed.
\<close>

definition FinalizeSub :: "ptr \<Rightarrow> heap \<Rightarrow> panic + ((ptr \<times> error list option) \<times> heap)" where
  "FinalizeSub f h =
     andThen (load (subBuilders h) f) (\<lambda>b.
     andThen (modify (\<lambda>b. b\<lparr>SubErrors := None\<rparr>) f (subBuilders h)) (\<lambda>m.
     Inr ((Fragment b, SubErrors b), h\<lparr>subBuilders := m\<rparr>)))"

subsection \<open>The setters\<close>

text \<open>An assignment to a promoted field of the wrapped embed: \<^verbatim>\<open>e.X = v\<close>.\<close>

definition assign :: "(disgord_Embed \<Rightarrow> disgord_Embed) \<Rightarrow> ptr \<Rightarrow> heap \<Rightarrow> panic + heap" where
  "assign f e h =
     andThen (load (embedBuilders h) e) (\<lambda>b.
     andThen (modify f (Embed b) (rawEmbeds h)) (\<lambda>m.
     Inr (h\<lparr>rawEmbeds := m\<rparr>)))"

definition returning :: "ptr \<Rightarrow> panic + heap \<Rightarrow> panic + (ptr \<times> heap)" where
  "returning e r = andThen r (\<lambda>h. Inr (e, h))"

definition SetTitle :: "string \<Rightarrow> ptr \<Rightarrow> heap \<Rightarrow> panic + (ptr \<times> heap)" where
  "SetTitle title e h =
     returning e
       (if int (length title) \<le> lowerCharLimit
        then assign (\<lambda>r. r\<lparr>Title := title\<rparr>) e h
        else addError characterCountExceedsLimitErrTemplateString
               [StrArg ''embed title'', IntArg lowerCharLimit, IntArg (int (length title)),
                StrArg title] e h)"

definition SetDescription :: "string \<Rightarrow> ptr \<Rightarrow> heap \<Rightarrow> panic + (ptr \<times> heap)" where
  "SetDescription desc e h =
     returning e
       (if int (length desc) \<le> upperCharLimit
        then assign (\<lambda>r. r\<lparr>Description := desc\<rparr>) e h
        else addError characterCountExceedsLimitLongErrTemplateString
               [StrArg ''embed description'', IntArg upperCharLimit,
                IntArg (int (length desc))] e h)"

definition SetURL :: "string \<Rightarrow> ptr \<Rightarrow> heap \<Rightarrow> panic + (ptr \<times> heap)" where
  "SetURL url e h = returning e (assign (\<lambda>r. r\<lparr>URL := url\<rparr>) e h)"

definition SetColor :: "int \<Rightarrow> ptr \<Rightarrow> heap \<Rightarrow> panic + (ptr \<times> heap)" where
  "SetColor color e h =
     returning e
       (if color \<ge> 0 \<and> color < maxColorValue
        then assign (\<lambda>r. r\<lparr>Color := color\<rparr>) e h
        else addError valueNotBetweenErrTemplateString
               [StrArg ''embed color'', IntArg color, IntArg 0, IntArg maxColorValue] e h)"

definition setRawTimestamp :: "Time \<Rightarrow> ptr \<Rightarrow> heap \<Rightarrow> panic + (ptr \<times> heap)" where
  "setRawTimestamp timestamp e h = returning e (assign (\<lambda>r. r\<lparr>Timestamp := timestamp\<rparr>) e h)"

text \<open>The reading of the clock, \<^verbatim>\<open>time.Now()\<close>, is the argument \<open>now\<close>.\<close>

definition SetCurrentTimestamp :: "Time \<Rightarrow> ptr \<Rightarrow> heap \<Rightarrow> panic + (ptr \<times> heap)" where
  "SetCurrentTimestamp now e h = setRawTimestamp (UTC now) e h"

definition SetCustomTimestamp :: "Time \<Rightarrow> ptr \<Rightarrow> heap \<Rightarrow> panic + (ptr \<times> heap)" where
  "SetCustomTimestamp t e h = setRawTimestamp (UTC t) e h"

text \<open>
  The loop of InlineAllFields and OutlineAllFields: \<^verbatim>\<open>f.Inline = v\<close> for each pointer
  \<open>f\<close> of the slice, writing through the pointer.
\<close>

fun setInlineEach :: "bool \<Rightarrow> ptr list \<Rightarrow> disgord_EmbedField list \<Rightarrow> panic + disgord_EmbedField list" where
  "setInlineEach v [] m = Inr m"
| "setInlineEach v (f # fs) m = andThen (modify (\<lambda>x. x\<lparr>Inline := v\<rparr>) f m) (setInlineEach v fs)"

definition InlineAllFields :: "ptr \<Rightarrow> heap \<Rightarrow> panic + (ptr \<times> heap)" where
  "InlineAllFields e h =
     returning e
       (andThen (rawAt h e) (\<lambda>r.
        andThen (setInlineEach True (Fields r) (rawFields h)) (\<lambda>m.
        Inr (h\<lparr>rawFields := m\<rparr>))))"

definition OutlineAllFields :: "ptr \<Rightarrow> heap \<Rightarrow> panic + (ptr \<times> heap)" where
  "OutlineAllFields e h =
     returning e
       (andThen (rawAt h e) (\<lambda>r.
        andThen (setInlineEach False (Fields r) (rawFields h)) (\<lambda>m.
        Inr (h\<lparr>rawFields := m\<rparr>))))"

definition AddRawField :: "ptr \<Rightarrow> ptr \<Rightarrow> heap \<Rightarrow> panic + (ptr \<times> heap)" where
  "AddRawField field e h =
     returning e
       (andThen (rawAt h e) (\<lambda>r.
        if int (length (Fields r)) < maxFieldCount
        then assign (\<lambda>r. r\<lparr>Fields := Fields r @ [field]\<rparr>) e h
        else andThen (load (rawFields h) field) (\<lambda>f.
             addError fieldLimitReachedErrTemplateString
               [StrArg (Name f), IntArg maxFieldCount] e h)))"

definition AddField :: "ptr \<Rightarrow> ptr \<Rightarrow> heap \<Rightarrow> panic + (ptr \<times> heap)" where
  "AddField field e h =
     andThen (FinalizeSub field h) (\<lambda>((res, errs), h1).
     andThen (addAllRawErrors errs e h1) (\<lambda>h2.
     AddRawField res e h2))"

fun addEachField :: "ptr list \<Rightarrow> ptr \<Rightarrow> heap \<Rightarrow> panic + heap" where
  "addEachField [] e h = Inr h"
| "addEachField (f # fs) e h = andThen (AddField f e h) (\<lambda>(e', h'). addEachField fs e h')"

definition AddFields :: "ptr list \<Rightarrow> ptr \<Rightarrow> heap \<Rightarrow> panic + (ptr \<times> heap)" where
  "AddFields fieldList e h = returning e (addEachField fieldList e h)"

fun addEachRawField :: "ptr list \<Rightarrow> ptr \<Rightarrow> heap \<Rightarrow> panic + heap" where
  "addEachRawField [] e h = Inr h"
| "addEachRawField (f # fs) e h = andThen (AddRawField f e h) (\<lambda>(e', h'). addEachRawField fs e h')"

definition AddRawFields :: "ptr list \<Rightarrow> ptr \<Rightarrow> heap \<Rightarrow> panic + (ptr \<times> heap)" where
  "AddRawFields fieldList e h = returning e (addEachRawField fieldList e h)"

definition SetRawAuthor :: "ptr \<Rightarrow> ptr \<Rightarrow> heap \<Rightarrow> panic + (ptr \<times> heap)" where
  "SetRawAuthor author e h = returning e (assign (\<lambda>r. r\<lparr>Author := author\<rparr>) e h)"

definition SetAuthor :: "ptr \<Rightarrow> ptr \<Rightarrow> heap \<Rightarrow> panic + (ptr \<times> heap)" where
  "SetAuthor author e h =
     andThen (FinalizeSub author h) (\<lambda>((res, errs), h1).
     andThen (addAllRawErrors errs e h1) (\<lambda>h2.
     SetRawAuthor res e h2))"

definition SetRawThumbnail :: "ptr \<Rightarrow> ptr \<Rightarrow> heap \<Rightarrow> panic + (ptr \<times> heap)" where
  "SetRawThumbnail thumb e h = returning e (assign (\<lambda>r. r\<lparr>Thumbnail := thumb\<rparr>) e h)"

definition SetThumbnail :: "ptr \<Rightarrow> ptr \<Rightarrow> heap \<Rightarrow> panic + (ptr \<times> heap)" where
  "SetThumbnail thumb e h =
     andThen (FinalizeSub thumb h) (\<lambda>((res, errs), h1).
     andThen (addAllRawErrors errs e h1) (\<lambda>h2.
     SetRawThumbnail res e h2))"

definition SetRawProvider :: "ptr \<Rightarrow> ptr \<Rightarrow> heap \<Rightarrow> panic + (ptr \<times> heap)" where
  "SetRawProvider provider e h = returning e (assign (\<lambda>r. r\<lparr>Provider := provider\<rparr>) e h)"

definition SetProvider :: "ptr \<Rightarrow> ptr \<Rightarrow> heap \<Rightarrow> panic + (ptr \<times> heap)" where
  "SetProvider provider e h =
     andThen (FinalizeSub provider h) (\<lambda>((res, errs), h1).
     andThen (if errs \<noteq> None then addAllRawErrors errs e h1 else Inr h1) (\<lambda>h2.
     SetRawProvider res e h2))"

definition SetRawFooter :: "ptr \<Rightarrow> ptr \<Rightarrow> heap \<Rightarrow> panic + (ptr \<times> heap)" where
  "SetRawFooter footer e h = returning e (assign (\<lambda>r. r\<lparr>Footer := footer\<rparr>) e h)"

definition SetFooter :: "ptr \<Rightarrow> ptr \<Rightarrow> heap \<Rightarrow> panic + (ptr \<times> heap)" where
  "SetFooter footer e h =
     andThen (FinalizeSub footer h) (\<lambda>((res, errs), h1).
     andThen (addAllRawErrors errs e h1) (\<lambda>h2.
     SetRawFooter res e h2))"

definition SetRawVideo :: "ptr \<Rightarrow> ptr \<Rightarrow> heap \<Rightarrow> panic + (ptr \<times> heap)" where
  "SetRawVideo vid e h = returning e (assign (\<lambda>r. r\<lparr>Video := vid\<rparr>) e h)"

definition SetVideo :: "ptr \<Rightarrow> ptr \<Rightarrow> heap \<Rightarrow> panic + (ptr \<times> heap)" where
  "SetVideo vid e h =
     andThen (FinalizeSub vid h) (\<lambda>((res, errs), h1).
     andThen (addAllRawErrors errs e h1) (\<lambda>h2.
     SetRawVideo res e h2))"

definition SetRawImage :: "ptr \<Rightarrow> ptr \<Rightarrow> heap \<Rightarrow> panic + (ptr \<times> heap)" where
  "SetRawImage img e h = returning e (assign (\<lambda>r. r\<lparr>Image := img\<rparr>) e h)"

definition SetImage :: "ptr \<Rightarrow> ptr \<Rightarrow> heap \<Rightarrow> panic + (ptr \<times> heap)" where
  "SetImage img e h =
     andThen (FinalizeSub img h) (\<lambda>((res, errs), h1).
     andThen (addAllRawErrors errs e h1) (\<lambda>h2.
     SetRawImage res e h2))"

definition SetType :: "string list \<Rightarrow> string \<Rightarrow> ptr \<Rightarrow> heap \<Rightarrow> panic + (ptr \<times> heap)" where
  "SetType validTypes embedType e h =
     returning e
       (if checkTypeValid validTypes embedType
        then assign (\<lambda>r. r\<lparr>Type := embedType\<rparr>) e h
        else addError invalidEmbedTypeErrTemplateString [StrArg embedType] e h)"

subsection \<open>Chains of setter calls\<close>

text \<open>
  One constructor for each setter of the builder, with its arguments, and the chain
  \<^verbatim>\<open>e.A(...).B(...)\<close>: every call is made on the handle the previous call returned,
  and a panic ends the chain.
\<close>

datatype setterCall =
    CallSetTitle string
  | CallSetDescription string
  | CallSetURL string
  | CallSetColor int
  | CallSetCurrentTimestamp Time
  | CallSetCustomTimestamp Time
  | CallInlineAllFields
  | CallOutlineAllFields
  | CallAddFields "ptr list"
  | CallAddRawFields "ptr list"
  | CallAddField ptr
  | CallAddRawField ptr
  | CallSetAuthor ptr
  | CallSetRawAuthor ptr
  | CallSetThumbnail ptr
  | CallSetRawThumbnail ptr
  | CallSetProvider ptr
  | CallSetRawProvider ptr
  | CallSetFooter ptr
  | CallSetRawFooter ptr
  | CallSetVideo ptr
  | CallSetRawVideo ptr
  | CallSetImage ptr
  | CallSetRawImage ptr
  | CallSetType string

fun call :: "string list \<Rightarrow> setterCall \<Rightarrow> ptr \<Rightarrow> heap \<Rightarrow> panic + (ptr \<times> heap)" where
  "call vt (CallSetTitle s) e h = SetTitle s e h"
| "call vt (CallSetDescription s) e h = SetDescription s e h"
| "call vt (CallSetURL s) e h = SetURL s e h"
| "call vt (CallSetColor c) e h = SetColor c e h"
| "call vt (CallSetCurrentTimestamp now) e h = SetCurrentTimestamp now e h"
| "call vt (CallSetCustomTimestamp t) e h = SetCustomTimestamp t e h"
| "call vt CallInlineAllFields e h = InlineAllFields e h"
| "call vt CallOutlineAllFields e h = OutlineAllFields e h"
| "call vt (CallAddFields fs) e h = AddFields fs e h"
| "call vt (CallAddRawFields fs) e h = AddRawFields fs e h"
| "call vt (CallAddField f) e h = AddField f e h"
| "call vt (CallAddRawField f) e h = AddRawField f e h"
| "call vt (CallSetAuthor p) e h = SetAuthor p e h"
| "call vt (CallSetRawAuthor p) e h = SetRawAuthor p e h"
| "call vt (CallSetThumbnail p) e h = SetThumbnail p e h"
| "call vt (CallSetRawThumbnail p) e h = SetRawThumbnail p e h"
| "call vt (CallSetProvider p) e h = SetProvider p e h"
| "call vt (CallSetRawProvider p) e h = SetRawProvider p e h"
| "call vt (CallSetFooter p) e h = SetFooter p e h"
| "call vt (CallSetRawFooter p) e h = SetRawFooter p e h"
| "call vt (CallSetVideo p) e h = SetVideo p e h"
| "call vt (CallSetRawVideo p) e h = SetRawVideo p e h"
| "call vt (CallSetImage p) e h = SetImage p e h"
| "call vt (CallSetRawImage p) e h = SetRawImage p e h"
| "call vt (CallSetType s) e h = SetType vt s e h"

fun chain :: "string list \<Rightarrow> setterCall list \<Rightarrow> ptr \<Rightarrow> heap \<Rightarrow> panic + (ptr \<times> heap)" where
  "chain vt [] e h = Inr (e, h)"
| "chain vt (c # cs) e h = andThen (call vt c e h) (\<lambda>(e', h'). chain vt cs e' h')"

subsection \<open>Observations used to state the results\<close>

text \<open>
  The error list a builder holds after the errors \<open>new\<close> were appended to the list
  \<open>held\<close> one by one: nothing is allocated when there is nothing to append.
\<close>

definition absorbed :: "error list option \<Rightarrow> error list \<Rightarrow> error list option" where
  "absorbed held new = (if new = [] then held else Some (errorList held @ new))"

text \<open>
  What a pointer to a Field builder stands for in a store: the raw field it wraps, the
  errors it holds, and the limit error that AddRawField records when it rejects that
  raw field.
\<close>

definition fragmentOf :: "heap \<Rightarrow> ptr \<Rightarrow> ptr" where
  "fragmentOf h f = (case load (subBuilders h) f of Inl p \<Rightarrow> None | Inr sb \<Rightarrow> Fragment sb)"

definition pendingErrors :: "heap \<Rightarrow> ptr \<Rightarrow> error list" where
  "pendingErrors h f =
     (case load (subBuilders h) f of Inl p \<Rightarrow> [] | Inr sb \<Rightarrow> errorList (SubErrors sb))"

definition limitError :: "heap \<Rightarrow> ptr \<Rightarrow> error" where
  "limitError h field =
     Errorf fieldLimitReachedErrTemplateString
       [StrArg (case load (rawFields h) field of Inl p \<Rightarrow> [] | Inr x \<Rightarrow> Name x), IntArg 25]"

definition fieldBuilderOk :: "heap \<Rightarrow> ptr \<Rightarrow> bool" where
  "fieldBuilderOk h f = (live (subBuilders h) f \<and> live (rawFields h) (fragmentOf h f))"

text \<open>
  The store after a sub-builder \<open>p\<close> was finalized and its errors absorbed by the embed
  builder \<open>e\<close>, before anything is attached; \<open>updated\<close> is the outcome of a write through
  a pointer, and nothing changes where the pointer is nil.
\<close>

definition updated :: "('a \<Rightarrow> 'a) \<Rightarrow> ptr \<Rightarrow> 'a list \<Rightarrow> 'a list" where
  "updated f p m = (case modify f p m of Inl x \<Rightarrow> m | Inr m' \<Rightarrow> m')"

definition afterAbsorb :: "ptr \<Rightarrow> ptr \<Rightarrow> heap \<Rightarrow> heap" where
  "afterAbsorb p e h =
     h\<lparr>subBuilders := updated (\<lambda>sb. sb\<lparr>SubErrors := None\<rparr>) p (subBuilders h),
       embedBuilders :=
         updated (\<lambda>b. b\<lparr>Errors := absorbed (Errors b) (pendingErrors h p)\<rparr>) e (embedBuilders h)\<rparr>"

subsection \<open>Builders and arguments without nil\<close>

text \<open>
  A builder as NewEmbed makes it and the setters keep it when no nil is passed in: the
  handle points to a builder, the builder wraps an embed, and every attached field is
  a raw field. The pointer arguments of a call are in order when a raw field that is to
  be attached is not nil and a builder that is to be finalized is not nil (a Field
  builder wrapping a raw field); the pointers given to SetRawAuthor and the other raw
  setters of a fragment may be nil.
\<close>

definition wellFormed :: "heap \<Rightarrow> ptr \<Rightarrow> bool" where
  "wellFormed h e =
     (case rawAt h e of Inl p \<Rightarrow> False | Inr r \<Rightarrow> list_all (live (rawFields h)) (Fields r))"

fun argumentsOk :: "heap \<Rightarrow> setterCall \<Rightarrow> bool" where
  "argumentsOk h (CallAddFields fs) = list_all (fieldBuilderOk h) fs"
| "argumentsOk h (CallAddRawFields fs) = list_all (live (rawFields h)) fs"
| "argumentsOk h (CallAddField f) = fieldBuilderOk h f"
| "argumentsOk h (CallAddRawField f) = live (rawFields h) f"
| "argumentsOk h (CallSetAuthor p) = live (subBuilders h) p"
| "argumentsOk h (CallSetThumbnail p) = live (subBuilders h) p"
| "argumentsOk h (CallSetProvider p) = live (subBuilders h) p"
| "argumentsOk h (CallSetFooter p) = live (subBuilders h) p"
| "argumentsOk h (CallSetVideo p) = live (subBuilders h) p"
| "argumentsOk h (CallSetImage p) = live (subBuilders h) p"
| "argumentsOk h c = True"

text \<open>Two stores with the same raw fields and sub-builders, up to their contents.\<close>

definition sameShape :: "heap \<Rightarrow> heap \<Rightarrow> bool" where
  "sameShape h h' =
     (length (rawFields h') = length (rawFields h) \<and>
      map Fragment (subBuilders h') = map Fragment (subBuilders h))"

subsection \<open>What the specification has a setter do\<close>

text \<open>
  The account of sections 4.1 and 7 of the specification, written down a second time
  and independently of the code above, to compare the code with: the errors that one
  setter call records, in order, and the raw embed that it leaves. \<open>n\<close> is the number of
  fields attached before the call. A call records its own failed check (a text that is
  too long, a value out of range, a type that is not valid, one limit error for each
  field offered once 25 are attached), and before that the errors of each builder it
  finalizes; a Field builder finalized earlier in the same call holds none any more
  (\<open>seen\<close>). A failed check leaves the embed as it was.
\<close>

fun fieldFailures :: "heap \<Rightarrow> nat \<Rightarrow> ptr list \<Rightarrow> ptr list \<Rightarrow> error list" where
  "fieldFailures h n seen [] = []"
| "fieldFailures h n seen (f # fs) =
     (if f \<in> set seen then [] else pendingErrors h f) @
     (if n < 25 then fieldFailures h (Suc n) (f # seen) fs
      else limitError h (fragmentOf h f) # fieldFailures h n (f # seen) fs)"

fun specFailures :: "string list \<Rightarrow> heap \<Rightarrow> nat \<Rightarrow> setterCall \<Rightarrow> error list" where
  "specFailures vt h n (CallSetTitle s) =
     (if length s \<le> 256 then []
      else [Errorf characterCountExceedsLimitErrTemplateString
              [StrArg ''embed title'', IntArg 256, IntArg (int (length s)), StrArg s]])"
| "specFailures vt h n (CallSetDescription s) =
     (if length s \<le> 2048 then []
      else [Errorf characterCountExceedsLimitLongErrTemplateString
              [StrArg ''embed description'', IntArg 2048, IntArg (int (length s))]])"
| "specFailures vt h n (CallSetColor c) =
     (if 0 \<le> c \<and> c < 16777216 then []
      else [Errorf valueNotBetweenErrTemplateString
              [StrArg ''embed color'', IntArg c, IntArg 0, IntArg 16777216]])"
| "specFailures vt h n (CallSetType s) =
     (if s \<in> set vt then [] else [Errorf invalidEmbedTypeErrTemplateString [StrArg s]])"
| "specFailures vt h n (CallAddRawField f) = (if n < 25 then [] else [limitError h f])"
| "specFailures vt h n (CallAddRawFields fs) = map (limitError h) (drop (25 - n) fs)"
| "specFailures vt h n (CallAddField f) =
     pendingErrors h f @ (if n < 25 then [] else [limitError h (fragmentOf h f)])"
| "specFailures vt h n (CallAddFields fs) = fieldFailures h n [] fs"
| "specFailures vt h n (CallSetAuthor p) = pendingErrors h p"
| "specFailures vt h n (CallSetThumbnail p) = pendingErrors h p"
| "specFailures vt h n (CallSetProvider p) = pendingErrors h p"
| "specFailures vt h n (CallSetFooter p) = pendingErrors h p"
| "specFailures vt h n (CallSetVideo p) = pendingErrors h p"
| "specFailures vt h n (CallSetImage p) = pendingErrors h p"
| "specFailures vt h n c = []"

fun specEmbed :: "string list \<Rightarrow> heap \<Rightarrow> disgord_Embed \<Rightarrow> setterCall \<Rightarrow> disgord_Embed" where
  "specEmbed vt h r (CallSetTitle s) = (if length s \<le> 256 then r\<lparr>Title := s\<rparr> else r)"
| "specEmbed vt h r (CallSetDescription s) = (if length s \<le> 2048 then r\<lparr>Description := s\<rparr> else r)"
| "specEmbed vt h r (CallSetURL s) = r\<lparr>URL := s\<rparr>"
| "specEmbed vt h r (CallSetColor c) = (if 0 \<le> c \<and> c < 16777216 then r\<lparr>Color := c\<rparr> else r)"
| "specEmbed vt h r (CallSetCurrentTimestamp now) = r\<lparr>Timestamp := UTC now\<rparr>"
| "specEmbed vt h r (CallSetCustomTimestamp t) = r\<lparr>Timestamp := UTC t\<rparr>"
| "specEmbed vt h r CallInlineAllFields = r"
| "specEmbed vt h r CallOutlineAllFields = r"
| "specEmbed vt h r (CallAddFields fs) =
     r\<lparr>Fields := Fields r @ map (fragmentOf h) (take (25 - length (Fields r)) fs)\<rparr>"
| "specEmbed vt h r (CallAddRawFields fs) =
     r\<lparr>Fields := Fields r @ take (25 - length (Fields r)) fs\<rparr>"
| "specEmbed vt h r (CallAddField f) =
     (if length (Fields r) < 25 then r\<lparr>Fields := Fields r @ [fragmentOf h f]\<rparr> else r)"
| "specEmbed vt h r (CallAddRawField f) =
     (if length (Fields r) < 25 then r\<lparr>Fields := Fields r @ [f]\<rparr> else r)"
| "specEmbed vt h r (CallSetAuthor p) = r\<lparr>Author := fragmentOf h p\<rparr>"
| "specEmbed vt h r (CallSetRawAuthor p) = r\<lparr>Author := p\<rparr>"
| "specEmbed vt h r (CallSetThumbnail p) = r\<lparr>Thumbnail := fragmentOf h p\<rparr>"
| "specEmbed vt h r (CallSetRawThumbnail p) = r\<lparr>Thumbnail := p\<rparr>"
| "specEmbed vt h r (CallSetProvider p) = r\<lparr>Provider := fragmentOf h p\<rparr>"
| "specEmbed vt h r (CallSetRawProvider p) = r\<lparr>Provider := p\<rparr>"
| "specEmbed vt h r (CallSetFooter p) = r\<lparr>Footer := fragmentOf h p\<rparr>"
| "specEmbed vt h r (CallSetRawFooter p) = r\<lparr>Footer := p\<rparr>"
| "specEmbed vt h r (CallSetVideo p) = r\<lparr>Video := fragmentOf h p\<rparr>"
| "specEmbed vt h r (CallSetRawVideo p) = r\<lparr>Video := p\<rparr>"
| "specEmbed vt h r (CallSetImage p) = r\<lparr>Image := fragmentOf h p\<rparr>"
| "specEmbed vt h r (CallSetRawImage p) = r\<lparr>Image := p\<rparr>"
| "specEmbed vt h r (CallSetType s) = (if s \<in> set vt then r\<lparr>Type := s\<rparr> else r)"

text \<open>
  The errors a chain of calls records: those of each call, in the store that the calls
  before it left.
\<close>

definition fieldCount :: "heap \<Rightarrow> ptr \<Rightarrow> nat" where
  "fieldCount h e = (case rawAt h e of Inl p \<Rightarrow> 0 | Inr r \<Rightarrow> length (Fields r))"

fun failuresAlong :: "string list \<Rightarrow> setterCall list \<Rightarrow> ptr \<Rightarrow> heap \<Rightarrow> error list" where
  "failuresAlong vt [] e h = []"
| "failuresAlong vt (c # cs) e h =
     specFailures vt h (fieldCount h e) c @
     (case call vt c e h of Inl p \<Rightarrow> [] | Inr (e', h') \<Rightarrow> failuresAlong vt cs e' h')"

text \<open>
  The store \<open>h'\<close> that a call leaves: the builder is in order again, it holds the errors
  \<open>new\<close> after those it held, and it wraps the embed \<open>r'\<close>.
\<close>

definition leaves :: "heap \<Rightarrow> ptr \<Rightarrow> Embed \<Rightarrow> error list \<Rightarrow> disgord_Embed \<Rightarrow> heap \<Rightarrow> bool" where
  "leaves h e b new r' h' =
     (wellFormed h' e \<and> sameShape h h' \<and>
      builderAt h' e = Inr (b\<lparr>Errors := absorbed (Errors b) new\<rparr>) \<and> rawAt h' e = Inr r')"

subsection \<open>Sample stores\<close>

text \<open>
  A store with one embed builder, fresh from NewEmbed, and twenty-six Field builders
  without errors, each wrapping a raw field of its own; the name of the field at
  address \<open>i\<close> is \<open>i\<close> letters long.
\<close>

definition twentySix :: heap where
  "twentySix =
     \<lparr>embedBuilders = [\<lparr>Embed = Some 0, Errors = None\<rparr>],
      rawEmbeds = [zeroEmbed],
      rawFields = map (\<lambda>i. \<lparr>Name = replicate i (CHR ''n''), Value = [], Inline = False\<rparr>) [0..<26],
      subBuilders = map (\<lambda>i. \<lparr>Fragment = Some i, SubErrors = None\<rparr>) [0..<26]\<rparr>"

text \<open>
  A store whose embed already holds twenty-five fields (the raw field at address 0,
  attached twenty-five times), with one more raw field and a Field builder that wraps
  it and holds an error of its own.
\<close>

definition nameTooLong :: error where
  "nameTooLong =
     Errorf characterCountExceedsLimitErrTemplateString
       [StrArg ''field name'', IntArg 256, IntArg 257, StrArg (replicate 257 (CHR ''x''))]"

definition full :: heap where
  "full =
     \<lparr>embedBuilders = [\<lparr>Embed = Some 0, Errors = None\<rparr>],
      rawEmbeds = [zeroEmbed\<lparr>Fields := replicate 25 (Some 0)\<rparr>],
      rawFields = [\<lparr>Name = ''first'', Value = ''value'', Inline = False\<rparr>,
                   \<lparr>Name = ''late'', Value = ''value'', Inline = True\<rparr>],
      subBuilders = [\<lparr>Fragment = Some 1, SubErrors = Some [nameTooLong]\<rparr>]\<rparr>"

text \<open>
  A store with a fresh embed builder and a Footer builder that holds one error of its
  own.
\<close>

definition footerTooLong :: error where
  "footerTooLong =
     Errorf characterCountExceedsLimitLongErrTemplateString
       [StrArg ''footer text'', IntArg 2048, IntArg 2049]"

definition withFooter :: heap where
  "withFooter =
     \<lparr>embedBuilders = [\<lparr>Embed = Some 0, Errors = None\<rparr>],
      rawEmbeds = [zeroEmbed],
      rawFields = [],
      subBuilders = [\<lparr>Fragment = Some 0, SubErrors = Some [footerTooLong]\<rparr>]\<rparr>"

text \<open>
  A store whose embed holds three fields: an inline one, attached twice, and one that
  is not inline.
\<close>

definition mixed :: heap where
  "mixed =
     \<lparr>embedBuilders = [\<lparr>Embed = Some 0, Errors = None\<rparr>],
      rawEmbeds = [zeroEmbed\<lparr>Fields := [Some 0, Some 1, Some 0]\<rparr>],
      rawFields = [\<lparr>Name = ''a'', Value = ''1'', Inline = True\<rparr>,
                   \<lparr>Name = ''b'', Value = ''2'', Inline = False\<rparr>],
      subBuilders = []\<rparr>"

section \<open>Basic facts about the store\<close>

lemma andThen_Inl [simp]: "andThen (Inl p) k = Inl p"
  by (simp add: andThen_def)

lemma andThen_Inr [simp]: "andThen (Inr x) k = k x"
  by (simp add: andThen_def)

lemma andThen_eq_Inr: "andThen r k = Inr y \<longleftrightarrow> (\<exists>x. r = Inr x \<and> k x = Inr y)"
  by (cases r) simp_all

lemma load_eq_Inr: "load m p = Inr x \<longleftrightarrow> (\<exists>a. p = Some a \<and> a < length m \<and> m ! a = x)"
  by (auto simp: load_def split: option.splits)

lemma modify_loaded: "load m p = Inr x \<Longrightarrow> modify f p m = Inr (m[the p := f x])"
  by (auto simp: load_eq_Inr modify_def)

lemma load_update_same: "load m p = Inr x \<Longrightarrow> load (m[the p := y]) p = Inr y"
  by (auto simp: load_eq_Inr)

lemma load_update:
  "load m p = Inr x \<Longrightarrow> load (m[the p := y]) q = (if q = p then Inr y else load m q)"
  by (auto simp: load_eq_Inr load_def split: option.splits)

lemma assign_loaded:
  assumes "builderAt h e = Inr b" and "rawAt h e = Inr r"
  shows "assign f e h = Inr (h\<lparr>rawEmbeds := (rawEmbeds h)[the (Embed b) := f r]\<rparr>)"
  using assms by (simp add: assign_def builderAt_def rawAt_def modify_loaded)

lemma addRawError_loaded:
  assumes "builderAt h e = Inr b"
  shows "addRawError err e h =
         Inr (h\<lparr>embedBuilders :=
                  (embedBuilders h)[the e := b\<lparr>Errors := Some (errorList (Errors b) @ [err])\<rparr>]\<rparr>)"
proof -
  let ?b = "if Errors b = None then b\<lparr>Errors := Some []\<rparr> else b"
  let ?m = "(embedBuilders h)[the e := ?b]"
  have allocated:
    "modify (\<lambda>b. if Errors b = None then b\<lparr>Errors := Some []\<rparr> else b) e (embedBuilders h) = Inr ?m"
    using assms by (simp add: builderAt_def modify_loaded)
  have reread: "load ?m e = Inr ?b"
    using assms by (simp add: builderAt_def load_update_same)
  show ?thesis
    unfolding addRawError_def allocated andThen_Inr modify_loaded [OF reread]
    by (cases "Errors b") (simp_all add: errorList_def)
qed

lemma rawAt_errors_update:
  assumes "builderAt h e = Inr b"
  shows "rawAt (h\<lparr>embedBuilders := (embedBuilders h)[the e := b\<lparr>Errors := es\<rparr>]\<rparr>) q = rawAt h q"
  using assms by (auto simp: rawAt_def builderAt_def load_update)

lemma builderAt_update:
  assumes "builderAt h e = Inr b"
  shows "builderAt (h\<lparr>embedBuilders := (embedBuilders h)[the e := b']\<rparr>) e = Inr b'"
  using assms by (simp add: builderAt_def load_update_same)

lemma rawAt_assigned:
  assumes "builderAt h e = Inr b" and "rawAt h e = Inr r"
  shows "rawAt (h\<lparr>rawEmbeds := (rawEmbeds h)[the (Embed b) := r']\<rparr>) e = Inr r'"
  using assms by (simp add: rawAt_def builderAt_def load_update_same)

text \<open>
  The shape shared by SetTitle, SetDescription, SetColor and SetType: a check, then
  either the assignment or one recorded error, and the receiver returned either way.
\<close>

lemma guarded_assign:
  assumes "builderAt h e = Inr b" and "rawAt h e = Inr r"
  shows "\<exists>h'. returning e (if ok then assign f e h else addError t vs e h) = Inr (e, h') \<and>
           (if ok
            then rawAt h' e = Inr (f r) \<and> embedBuilders h' = embedBuilders h
            else rawEmbeds h' = rawEmbeds h \<and> rawAt h' e = Inr r \<and>
                 builderAt h' e =
                   Inr (b\<lparr>Errors := Some (errorList (Errors b) @ [Errorf t vs])\<rparr>))"
  using assms
  by (cases ok)
     (simp_all add: returning_def assign_loaded rawAt_assigned addError_def addRawError_loaded
        rawAt_errors_update builderAt_update)

lemma fresh_builder:
  "builderAt (snd (NewEmbed emptyHeap)) (Some 0) = Inr \<lparr>Embed = Some 0, Errors = None\<rparr>"
  by (simp add: NewEmbed_def emptyHeap_def builderAt_def load_def)

lemma fresh_raw: "rawAt (snd (NewEmbed emptyHeap)) (Some 0) = Inr zeroEmbed"
  by (simp add: NewEmbed_def emptyHeap_def rawAt_def load_def)

lemma live_load: "live m p \<longleftrightarrow> (\<exists>x. load m p = Inr x)"
  by (auto simp: live_def load_def split: option.splits)

lemma absorbed_Nil [simp]: "absorbed held [] = held"
  by (simp add: absorbed_def)

lemma absorbed_append: "absorbed (absorbed held xs) ys = absorbed held (xs @ ys)"
  by (simp add: absorbed_def errorList_def)

lemma absorbed_single: "Some (errorList held @ [err]) = absorbed held [err]"
  by (simp add: absorbed_def)

lemma heap_embedBuilders_id:
  "builderAt h e = Inr b \<Longrightarrow> h\<lparr>embedBuilders := (embedBuilders h)[the e := b]\<rparr> = h"
  by (auto simp: builderAt_def load_eq_Inr)

lemma addEachRawError_loaded:
  assumes "builderAt h e = Inr b"
  shows "addEachRawError es e h =
         Inr (h\<lparr>embedBuilders := (embedBuilders h)[the e := b\<lparr>Errors := absorbed (Errors b) es\<rparr>]\<rparr>)"
  using assms
proof (induction es arbitrary: h b)
  case Nil
  then show ?case by (simp add: heap_embedBuilders_id)
next
  case (Cons err es)
  let ?b = "b\<lparr>Errors := Some (errorList (Errors b) @ [err])\<rparr>"
  let ?h = "h\<lparr>embedBuilders := (embedBuilders h)[the e := ?b]\<rparr>"
  have held: "builderAt ?h e = Inr ?b"
    using Cons.prems by (rule builderAt_update)
  have "addEachRawError (err # es) e h = addEachRawError es e ?h"
    using Cons.prems by (simp add: addRawError_loaded)
  also have "\<dots> = Inr (?h\<lparr>embedBuilders :=
      (embedBuilders ?h)[the e := ?b\<lparr>Errors := absorbed (Errors ?b) es\<rparr>]\<rparr>)"
    by (rule Cons.IH [OF held])
  also have "\<dots> = Inr (h\<lparr>embedBuilders :=
      (embedBuilders h)[the e := b\<lparr>Errors := absorbed (Errors b) (err # es)\<rparr>]\<rparr>)"
    by (simp add: absorbed_def errorList_def)
  finally show ?case .
qed

lemma addAllRawErrors_loaded:
  assumes "builderAt h e = Inr b"
  shows "addAllRawErrors errs e h =
         Inr (h\<lparr>embedBuilders :=
                  (embedBuilders h)[the e := b\<lparr>Errors := absorbed (Errors b) (errorList errs)\<rparr>]\<rparr>)"
  using assms
  by (cases errs) (simp_all add: addAllRawErrors_def errorList_def addEachRawError_loaded heap_embedBuilders_id)

lemma FinalizeSub_loaded:
  assumes "load (subBuilders h) p = Inr sb"
  shows "FinalizeSub p h =
         Inr ((Fragment sb, SubErrors sb),
              h\<lparr>subBuilders := (subBuilders h)[the p := sb\<lparr>SubErrors := None\<rparr>]\<rparr>)"
  using assms by (simp add: FinalizeSub_def modify_loaded)

lemma absorb_then:
  assumes "builderAt h e = Inr b" and "load (subBuilders h) p = Inr sb"
  shows "andThen (FinalizeSub p h) (\<lambda>((res, errs), h1).
           andThen (addAllRawErrors errs e h1) (\<lambda>h2. k res h2))
         = k (Fragment sb) (afterAbsorb p e h)"
proof -
  let ?h1 = "h\<lparr>subBuilders := (subBuilders h)[the p := sb\<lparr>SubErrors := None\<rparr>]\<rparr>"
  have held: "builderAt ?h1 e = Inr b"
    using assms(1) by (simp add: builderAt_def)
  have "load (embedBuilders h) e = Inr b"
    using assms(1) by (simp add: builderAt_def)
  then show ?thesis
    using assms(2)
    by (simp add: FinalizeSub_loaded [OF assms(2)] addAllRawErrors_loaded [OF held]
        afterAbsorb_def pendingErrors_def updated_def modify_loaded)
qed

lemma afterAbsorb_facts:
  assumes "builderAt h e = Inr b" and "load (subBuilders h) p = Inr sb"
  shows "builderAt (afterAbsorb p e h) e = Inr (b\<lparr>Errors := absorbed (Errors b) (errorList (SubErrors sb))\<rparr>)"
    and "rawAt (afterAbsorb p e h) e = rawAt h e"
    and "rawEmbeds (afterAbsorb p e h) = rawEmbeds h"
    and "rawFields (afterAbsorb p e h) = rawFields h"
    and "load (subBuilders (afterAbsorb p e h)) p = Inr (sb\<lparr>SubErrors := None\<rparr>)"
    and "q \<noteq> p \<Longrightarrow> load (subBuilders (afterAbsorb p e h)) q = load (subBuilders h) q"
proof -
  from assms obtain a pa where
    "e = Some a" "a < length (embedBuilders h)" "embedBuilders h ! a = b"
    "p = Some pa" "pa < length (subBuilders h)" "subBuilders h ! pa = sb"
    by (auto simp: builderAt_def load_eq_Inr)
  then show
    "builderAt (afterAbsorb p e h) e = Inr (b\<lparr>Errors := absorbed (Errors b) (errorList (SubErrors sb))\<rparr>)"
    "rawAt (afterAbsorb p e h) e = rawAt h e"
    "rawEmbeds (afterAbsorb p e h) = rawEmbeds h"
    "rawFields (afterAbsorb p e h) = rawFields h"
    "load (subBuilders (afterAbsorb p e h)) p = Inr (sb\<lparr>SubErrors := None\<rparr>)"
    "q \<noteq> p \<Longrightarrow> load (subBuilders (afterAbsorb p e h)) q = load (subBuilders h) q"
    by (auto simp: afterAbsorb_def updated_def modify_def builderAt_def rawAt_def
        pendingErrors_def load_def nth_list_update split: option.splits)
qed

lemma Finalize_loaded:
  assumes "builderAt h e = Inr b"
  shows "Finalize e h =
         Inr ((Embed b, Errors b), h\<lparr>embedBuilders := (embedBuilders h)[the e := b\<lparr>Errors := None\<rparr>]\<rparr>)"
  using assms by (simp add: Finalize_def builderAt_def modify_loaded)

lemma provider_check:
  "(if errs \<noteq> None then addAllRawErrors errs e h else Inr h) = addAllRawErrors errs e h"
  by (cases errs) (simp_all add: addAllRawErrors_def)

lemma returning_eq_Inr: "returning e x = Inr (e', h') \<longleftrightarrow> e' = e \<and> x = Inr h'"
  by (cases x) (auto simp: returning_def)

lemma live_same_length: "length m' = length m \<Longrightarrow> live m' p = live m p"
  by (simp add: live_def split: option.splits)

section \<open>The length limit of the title\<close>

text \<open>
  C1. For every string \<open>s\<close>, called on a builder that wraps an embed: if the length of
  \<open>s\<close> is at most 256, \<open>SetTitle s\<close> sets the title of the embed to \<open>s\<close> and leaves the
  builder, and with it the error list, as it was; if the length exceeds 256, the embed
  keeps its title (no raw embed changes) and exactly one error is appended to the
  error list, the LimitExceeded error made from the title template.
\<close>

theorem SetTitle_limit:
  assumes "builderAt h e = Inr b" and "rawAt h e = Inr r"
  shows "\<exists>h'. SetTitle s e h = Inr (e, h') \<and>
           (if length s \<le> 256
            then rawAt h' e = Inr (r\<lparr>Title := s\<rparr>) \<and> embedBuilders h' = embedBuilders h
            else rawEmbeds h' = rawEmbeds h \<and> rawAt h' e = Inr r \<and>
                 builderAt h' e =
                   Inr (b\<lparr>Errors := Some (errorList (Errors b) @
                     [Errorf characterCountExceedsLimitErrTemplateString
                        [StrArg ''embed title'', IntArg 256, IntArg (int (length s)), StrArg s]])\<rparr>) \<and>
                 errorKind (Errorf characterCountExceedsLimitErrTemplateString
                        [StrArg ''embed title'', IntArg 256, IntArg (int (length s)), StrArg s])
                   = LimitExceeded)"
proof -
  have check: "(int (length s) \<le> lowerCharLimit) = (length s \<le> 256)"
    by (simp add: lowerCharLimit_def)
  show ?thesis
    using guarded_assign [OF assms, of "length s \<le> 256" "\<lambda>r. r\<lparr>Title := s\<rparr>"
        characterCountExceedsLimitErrTemplateString
        "[StrArg ''embed title'', IntArg 256, IntArg (int (length s)), StrArg s]"]
    unfolding SetTitle_def check
    by (cases "length s \<le> 256") (simp_all add: lowerCharLimit_def)
qed

theorem SetTitle_limit_witness:
  "builderAt (snd (NewEmbed emptyHeap)) (Some 0) = Inr \<lparr>Embed = Some 0, Errors = None\<rparr> \<and>
   rawAt (snd (NewEmbed emptyHeap)) (Some 0) = Inr zeroEmbed \<and>
   (\<exists>h'. SetTitle ''example'' (Some 0) (snd (NewEmbed emptyHeap)) = Inr (Some 0, h') \<and>
         rawAt h' (Some 0) = Inr (zeroEmbed\<lparr>Title := ''example''\<rparr>) \<and>
         embedBuilders h' = embedBuilders (snd (NewEmbed emptyHeap))) \<and>
   (\<exists>h'. SetTitle (replicate 257 (CHR ''x'')) (Some 0) (snd (NewEmbed emptyHeap)) = Inr (Some 0, h') \<and>
         rawAt h' (Some 0) = Inr zeroEmbed \<and>
         builderAt h' (Some 0) =
           Inr \<lparr>Embed = Some 0, Errors = Some
             [Errorf characterCountExceedsLimitErrTemplateString
                [StrArg ''embed title'', IntArg 256, IntArg 257,
                 StrArg (replicate 257 (CHR ''x''))]]\<rparr>)"
  using fresh_builder fresh_raw
    SetTitle_limit [OF fresh_builder fresh_raw, of "''example''"]
    SetTitle_limit [OF fresh_builder fresh_raw, of "replicate 257 (CHR ''x'')"]
  by (auto simp: errorList_def)

section \<open>The range of the colour\<close>

text \<open>
  C2. For every integer \<open>c\<close>, called on a builder that wraps an embed: \<open>SetColor c\<close> sets
  the colour of the embed to \<open>c\<close>, and leaves the builder and its error list as they
  were, exactly when \<open>0 \<le> c < 16777216\<close>; otherwise the embed keeps its colour (no raw
  embed changes) and exactly one error is appended to the error list, the
  ValueOutOfRange error made from the range template.
\<close>

theorem SetColor_range:
  assumes "builderAt h e = Inr b" and "rawAt h e = Inr r"
  shows "\<exists>h'. SetColor c e h = Inr (e, h') \<and>
           (if 0 \<le> c \<and> c < 16777216
            then rawAt h' e = Inr (r\<lparr>Color := c\<rparr>) \<and> embedBuilders h' = embedBuilders h
            else rawEmbeds h' = rawEmbeds h \<and> rawAt h' e = Inr r \<and>
                 builderAt h' e =
                   Inr (b\<lparr>Errors := Some (errorList (Errors b) @
                     [Errorf valueNotBetweenErrTemplateString
                        [StrArg ''embed color'', IntArg c, IntArg 0, IntArg 16777216]])\<rparr>) \<and>
                 errorKind (Errorf valueNotBetweenErrTemplateString
                        [StrArg ''embed color'', IntArg c, IntArg 0, IntArg 16777216])
                   = ValueOutOfRange)"
proof -
  define ok where "ok = (0 \<le> c \<and> c < 16777216)"
  have "\<exists>h'. returning e
               (if ok then assign (\<lambda>r. r\<lparr>Color := c\<rparr>) e h
                else addError valueNotBetweenErrTemplateString
                       [StrArg ''embed color'', IntArg c, IntArg 0, IntArg 16777216] e h)
              = Inr (e, h') \<and>
           (if ok
            then rawAt h' e = Inr (r\<lparr>Color := c\<rparr>) \<and> embedBuilders h' = embedBuilders h
            else rawEmbeds h' = rawEmbeds h \<and> rawAt h' e = Inr r \<and>
                 builderAt h' e =
                   Inr (b\<lparr>Errors := Some (errorList (Errors b) @
                     [Errorf valueNotBetweenErrTemplateString
                        [StrArg ''embed color'', IntArg c, IntArg 0, IntArg 16777216]])\<rparr>) \<and>
                 errorKind (Errorf valueNotBetweenErrTemplateString
                        [StrArg ''embed color'', IntArg c, IntArg 0, IntArg 16777216])
                   = ValueOutOfRange)"
    using guarded_assign [OF assms, of ok "\<lambda>r. r\<lparr>Color := c\<rparr>"
        valueNotBetweenErrTemplateString
        "[StrArg ''embed color'', IntArg c, IntArg 0, IntArg 16777216]"]
    by (cases ok) simp_all
  then show ?thesis
    unfolding SetColor_def maxColorValue_def ok_def .
qed

theorem SetColor_range_witness:
  "builderAt (snd (NewEmbed emptyHeap)) (Some 0) = Inr \<lparr>Embed = Some 0, Errors = None\<rparr> \<and>
   rawAt (snd (NewEmbed emptyHeap)) (Some 0) = Inr zeroEmbed \<and>
   (\<exists>h'. SetColor 16777215 (Some 0) (snd (NewEmbed emptyHeap)) = Inr (Some 0, h') \<and>
         rawAt h' (Some 0) = Inr (zeroEmbed\<lparr>Color := 16777215\<rparr>) \<and>
         embedBuilders h' = embedBuilders (snd (NewEmbed emptyHeap))) \<and>
   (\<exists>h'. SetColor 16777216 (Some 0) (snd (NewEmbed emptyHeap)) = Inr (Some 0, h') \<and>
         rawAt h' (Some 0) = Inr zeroEmbed \<and>
         builderAt h' (Some 0) =
           Inr \<lparr>Embed = Some 0, Errors = Some
             [Errorf valueNotBetweenErrTemplateString
                [StrArg ''embed color'', IntArg 16777216, IntArg 0, IntArg 16777216]]\<rparr>) \<and>
   (\<exists>h'. SetColor (- 1) (Some 0) (snd (NewEmbed emptyHeap)) = Inr (Some 0, h') \<and>
         rawAt h' (Some 0) = Inr zeroEmbed \<and>
         builderAt h' (Some 0) =
           Inr \<lparr>Embed = Some 0, Errors = Some
             [Errorf valueNotBetweenErrTemplateString
                [StrArg ''embed color'', IntArg (- 1), IntArg 0, IntArg 16777216]]\<rparr>)"
  using fresh_builder fresh_raw
    SetColor_range [OF fresh_builder fresh_raw, of 16777215]
    SetColor_range [OF fresh_builder fresh_raw, of 16777216]
    SetColor_range [OF fresh_builder fresh_raw, of "- 1"]
  by (auto simp: errorList_def)

section \<open>The enumeration of embed types\<close>

text \<open>
  C7. Called on a builder that wraps an embed: when \<open>name\<close> belongs to the enumeration
  of valid embed types, \<open>SetType name\<close> sets the type of the embed to \<open>name\<close> and leaves
  the builder and its error list as they were; when it does not, the embed keeps its
  type (no raw embed changes) and exactly one error is appended, the InvalidEnumValue
  error carrying the rejected name.
\<close>

theorem SetType_enumeration:
  assumes "builderAt h e = Inr b" and "rawAt h e = Inr r"
  shows "\<exists>h'. SetType validTypes name e h = Inr (e, h') \<and>
           (if name \<in> set validTypes
            then rawAt h' e = Inr (r\<lparr>Type := name\<rparr>) \<and> embedBuilders h' = embedBuilders h
            else rawEmbeds h' = rawEmbeds h \<and> rawAt h' e = Inr r \<and>
                 builderAt h' e =
                   Inr (b\<lparr>Errors := Some (errorList (Errors b) @
                     [Errorf invalidEmbedTypeErrTemplateString [StrArg name]])\<rparr>) \<and>
                 errorKind (Errorf invalidEmbedTypeErrTemplateString [StrArg name])
                   = InvalidEnumValue)"
  using guarded_assign [OF assms, of "name \<in> set validTypes" "\<lambda>r. r\<lparr>Type := name\<rparr>"
      invalidEmbedTypeErrTemplateString "[StrArg name]"]
  unfolding SetType_def checkTypeValid_def
  by (cases "name \<in> set validTypes") simp_all

text \<open>
  The two names of the specification, \<open>rich\<close> and \<open>bogus\<close>, against the embed types of
  the platform.
\<close>

theorem SetType_enumeration_witness:
  "builderAt (snd (NewEmbed emptyHeap)) (Some 0) = Inr \<lparr>Embed = Some 0, Errors = None\<rparr> \<and>
   rawAt (snd (NewEmbed emptyHeap)) (Some 0) = Inr zeroEmbed \<and>
   (\<exists>h'. SetType [''rich'', ''image'', ''video'', ''gifv'', ''article'', ''link''] ''rich''
            (Some 0) (snd (NewEmbed emptyHeap)) = Inr (Some 0, h') \<and>
         rawAt h' (Some 0) = Inr (zeroEmbed\<lparr>Type := ''rich''\<rparr>) \<and>
         embedBuilders h' = embedBuilders (snd (NewEmbed emptyHeap))) \<and>
   (\<exists>h'. SetType [''rich'', ''image'', ''video'', ''gifv'', ''article'', ''link''] ''bogus''
            (Some 0) (snd (NewEmbed emptyHeap)) = Inr (Some 0, h') \<and>
         rawAt h' (Some 0) = Inr zeroEmbed \<and>
         builderAt h' (Some 0) =
           Inr \<lparr>Embed = Some 0, Errors = Some
             [Errorf invalidEmbedTypeErrTemplateString [StrArg ''bogus'']]\<rparr>)"
  using fresh_builder fresh_raw
    SetType_enumeration [OF fresh_builder fresh_raw,
      of "[''rich'', ''image'', ''video'', ''gifv'', ''article'', ''link'']" "''rich''"]
    SetType_enumeration [OF fresh_builder fresh_raw,
      of "[''rich'', ''image'', ''video'', ''gifv'', ''article'', ''link'']" "''bogus''"]
  by (auto simp: errorList_def)

section \<open>Finalize, twice\<close>

text \<open>
  C4. For every Embed builder, two calls of Finalize in a row: the first returns the
  pointer to the raw embed and the error list the builder held, the second returns
  the same pointer and the nil error list, whatever the first returned, and neither
  call changes any raw embed or raw field of the store.
\<close>

theorem Finalize_twice:
  assumes "builderAt h e = Inr b"
  shows "\<exists>h1 h2. Finalize e h = Inr ((Embed b, Errors b), h1) \<and>
                 Finalize e h1 = Inr ((Embed b, None), h2) \<and>
                 rawEmbeds h1 = rawEmbeds h \<and> rawEmbeds h2 = rawEmbeds h \<and>
                 rawFields h1 = rawFields h \<and> rawFields h2 = rawFields h"
proof -
  let ?h1 = "h\<lparr>embedBuilders := (embedBuilders h)[the e := b\<lparr>Errors := None\<rparr>]\<rparr>"
  have first: "Finalize e h = Inr ((Embed b, Errors b), ?h1)"
    using assms by (simp add: Finalize_def builderAt_def modify_loaded)
  have cleared: "builderAt ?h1 e = Inr (b\<lparr>Errors := None\<rparr>)"
    using assms by (rule builderAt_update)
  have second: "Finalize e ?h1 =
      Inr ((Embed b, None), ?h1\<lparr>embedBuilders := (embedBuilders ?h1)[the e := b\<lparr>Errors := None\<rparr>]\<rparr>)"
    using cleared by (simp add: Finalize_def builderAt_def modify_loaded)
  show ?thesis
    using first second by simp
qed

theorem Finalize_twice_witness:
  "builderAt
     \<lparr>embedBuilders =
        [\<lparr>Embed = Some 0, Errors = Some [Errorf invalidEmbedTypeErrTemplateString [StrArg ''bogus'']]\<rparr>],
      rawEmbeds = [zeroEmbed], rawFields = [], subBuilders = []\<rparr> (Some 0)
     = Inr \<lparr>Embed = Some 0, Errors = Some [Errorf invalidEmbedTypeErrTemplateString [StrArg ''bogus'']]\<rparr> \<and>
   (\<exists>h1 h2.
      Finalize (Some 0)
        \<lparr>embedBuilders =
           [\<lparr>Embed = Some 0, Errors = Some [Errorf invalidEmbedTypeErrTemplateString [StrArg ''bogus'']]\<rparr>],
         rawEmbeds = [zeroEmbed], rawFields = [], subBuilders = []\<rparr>
        = Inr ((Some 0, Some [Errorf invalidEmbedTypeErrTemplateString [StrArg ''bogus'']]), h1) \<and>
      Finalize (Some 0) h1 = Inr ((Some 0, None), h2) \<and>
      rawEmbeds h1 = [zeroEmbed] \<and> rawEmbeds h2 = [zeroEmbed])"
proof -
  have held: "builderAt
     \<lparr>embedBuilders =
        [\<lparr>Embed = Some 0, Errors = Some [Errorf invalidEmbedTypeErrTemplateString [StrArg ''bogus'']]\<rparr>],
      rawEmbeds = [zeroEmbed], rawFields = [], subBuilders = []\<rparr> (Some 0)
     = Inr \<lparr>Embed = Some 0, Errors = Some [Errorf invalidEmbedTypeErrTemplateString [StrArg ''bogus'']]\<rparr>"
    by (simp add: builderAt_def load_def)
  show ?thesis
    using held Finalize_twice [OF held] by auto
qed

section \<open>The limit on the number of fields\<close>

lemma AddRawField_accepts:
  assumes "builderAt h e = Inr b" and "rawAt h e = Inr r" and "length (Fields r) < 25"
  shows "AddRawField f e h =
         Inr (e, h\<lparr>rawEmbeds := (rawEmbeds h)[the (Embed b) := r\<lparr>Fields := Fields r @ [f]\<rparr>]\<rparr>)"
  using assms by (simp add: AddRawField_def returning_def maxFieldCount_def assign_loaded)

lemma AddRawField_rejects:
  assumes "builderAt h e = Inr b" and "rawAt h e = Inr r" and "\<not> length (Fields r) < 25"
    and "load (rawFields h) f = Inr x"
  shows "AddRawField f e h =
         Inr (e, h\<lparr>embedBuilders :=
                     (embedBuilders h)[the e := b\<lparr>Errors := Some (errorList (Errors b) @ [limitError h f])\<rparr>]\<rparr>)"
  using assms
  by (simp add: AddRawField_def returning_def maxFieldCount_def addError_def addRawError_loaded
      limitError_def)

lemma AddField_effect:
  assumes "builderAt h e = Inr b" and "rawAt h e = Inr r"
    and "load (subBuilders h) f = Inr sb" and "load (rawFields h) (Fragment sb) = Inr x"
  shows "\<exists>h'. AddField f e h = Inr (e, h') \<and>
           builderAt h' e =
             Inr (b\<lparr>Errors := absorbed (Errors b)
                    (errorList (SubErrors sb) @
                     (if length (Fields r) < 25 then [] else [limitError h (Fragment sb)]))\<rparr>) \<and>
           rawAt h' e = Inr (if length (Fields r) < 25 then r\<lparr>Fields := Fields r @ [Fragment sb]\<rparr> else r) \<and>
           rawFields h' = rawFields h \<and>
           load (subBuilders h') f = Inr (sb\<lparr>SubErrors := None\<rparr>) \<and>
           (\<forall>q. q \<noteq> f \<longrightarrow> load (subBuilders h') q = load (subBuilders h) q) \<and>
           (\<not> length (Fields r) < 25 \<longrightarrow> rawEmbeds h' = rawEmbeds h)"
proof -
  let ?h1 = "afterAbsorb f e h"
  let ?b1 = "b\<lparr>Errors := absorbed (Errors b) (errorList (SubErrors sb))\<rparr>"
  have held: "builderAt ?h1 e = Inr ?b1" and raw: "rawAt ?h1 e = Inr r"
    and embeds: "rawEmbeds ?h1 = rawEmbeds h"
    and fields: "rawFields ?h1 = rawFields h"
    and sub: "load (subBuilders ?h1) f = Inr (sb\<lparr>SubErrors := None\<rparr>)"
    and others: "\<And>q. q \<noteq> f \<Longrightarrow> load (subBuilders ?h1) q = load (subBuilders h) q"
    using afterAbsorb_facts [OF assms(1,3)] assms(2) by simp_all
  have unfolded: "AddField f e h = AddRawField (Fragment sb) e ?h1"
    unfolding AddField_def by (rule absorb_then [OF assms(1,3)])
  show ?thesis
  proof (cases "length (Fields r) < 25")
    case True
    let ?h' = "?h1\<lparr>rawEmbeds := (rawEmbeds ?h1)[the (Embed ?b1) := r\<lparr>Fields := Fields r @ [Fragment sb]\<rparr>]\<rparr>"
    have "AddField f e h = Inr (e, ?h')"
      unfolding unfolded by (rule AddRawField_accepts [OF held raw True])
    moreover have "builderAt ?h' e = Inr ?b1"
      using held by (simp add: builderAt_def)
    moreover have "rawAt ?h' e = Inr (r\<lparr>Fields := Fields r @ [Fragment sb]\<rparr>)"
      using rawAt_assigned [OF held raw] .
    ultimately show ?thesis
      using True fields sub others by simp
  next
    case False
    let ?h' = "?h1\<lparr>embedBuilders :=
       (embedBuilders ?h1)[the e := ?b1\<lparr>Errors := Some (errorList (Errors ?b1) @ [limitError ?h1 (Fragment sb)])\<rparr>]\<rparr>"
    have x: "load (rawFields ?h1) (Fragment sb) = Inr x"
      using assms(4) fields by simp
    have "AddField f e h = Inr (e, ?h')"
      unfolding unfolded by (rule AddRawField_rejects [OF held raw False x])
    moreover have "builderAt ?h' e =
        Inr (?b1\<lparr>Errors := Some (errorList (Errors ?b1) @ [limitError ?h1 (Fragment sb)])\<rparr>)"
      using held by (rule builderAt_update)
    moreover have "rawAt ?h' e = Inr r"
      using rawAt_errors_update [OF held] raw by simp
    moreover have "limitError ?h1 (Fragment sb) = limitError h (Fragment sb)"
      using fields by (simp add: limitError_def)
    ultimately show ?thesis
      using False embeds fields sub others by (simp add: absorbed_def errorList_def)
  qed
qed

lemma fieldBuilderOk_iff:
  "fieldBuilderOk h f \<longleftrightarrow>
     (\<exists>sb x. load (subBuilders h) f = Inr sb \<and> load (rawFields h) (Fragment sb) = Inr x)"
  by (auto simp: fieldBuilderOk_def live_load fragmentOf_def)

lemma addEachField_effect:
  assumes "builderAt h e = Inr b" and "rawAt h e = Inr r" and "distinct fs"
    and "\<forall>f\<in>set fs. fieldBuilderOk h f"
  shows "\<exists>h'. addEachField fs e h = Inr h' \<and>
           rawAt h' e =
             Inr (r\<lparr>Fields := Fields r @ map (fragmentOf h) (take (25 - length (Fields r)) fs)\<rparr>) \<and>
           builderAt h' e =
             Inr (b\<lparr>Errors := absorbed (Errors b)
                    (concat (map (pendingErrors h) (take (25 - length (Fields r)) fs)) @
                     concat (map (\<lambda>f. pendingErrors h f @ [limitError h (fragmentOf h f)])
                               (drop (25 - length (Fields r)) fs)))\<rparr>)"
  using assms
proof (induction fs arbitrary: h b r)
  case Nil
  then show ?case by simp
next
  case (Cons f fs)
  from Cons.prems(4) obtain sb x where
    sb: "load (subBuilders h) f = Inr sb" and x: "load (rawFields h) (Fragment sb) = Inr x"
    by (auto simp: fieldBuilderOk_iff)
  let ?b1 = "b\<lparr>Errors := absorbed (Errors b)
                    (errorList (SubErrors sb) @
                     (if length (Fields r) < 25 then [] else [limitError h (Fragment sb)]))\<rparr>"
  let ?r1 = "if length (Fields r) < 25 then r\<lparr>Fields := Fields r @ [Fragment sb]\<rparr> else r"
  from AddField_effect [OF Cons.prems(1,2) sb x] obtain h1 where
    step: "AddField f e h = Inr (e, h1)" and
    held: "builderAt h1 e = Inr ?b1" and
    raw: "rawAt h1 e = Inr ?r1" and
    fields: "rawFields h1 = rawFields h" and
    others: "\<forall>q. q \<noteq> f \<longrightarrow> load (subBuilders h1) q = load (subBuilders h) q"
    by blast
  have notin: "f \<notin> set fs" and dist: "distinct fs"
    using Cons.prems(3) by simp_all
  have same: "\<And>q. q \<in> set fs \<Longrightarrow> load (subBuilders h1) q = load (subBuilders h) q"
    using others notin by auto
  have frag: "\<And>q. q \<in> set fs \<Longrightarrow> fragmentOf h1 q = fragmentOf h q"
    and pend: "\<And>q. q \<in> set fs \<Longrightarrow> pendingErrors h1 q = pendingErrors h q"
    by (simp_all add: fragmentOf_def pendingErrors_def same)
  have lim: "\<And>p. limitError h1 p = limitError h p"
    by (simp add: limitError_def fields)
  have ok: "\<forall>q\<in>set fs. fieldBuilderOk h1 q"
    using Cons.prems(4) by (simp add: fieldBuilderOk_iff same fields)
  from Cons.IH [OF held raw dist ok] obtain h' where
    rest: "addEachField fs e h1 = Inr h'" and
    raw': "rawAt h' e =
             Inr (?r1\<lparr>Fields := Fields ?r1 @ map (fragmentOf h1) (take (25 - length (Fields ?r1)) fs)\<rparr>)" and
    held': "builderAt h' e =
             Inr (?b1\<lparr>Errors := absorbed (Errors ?b1)
                    (concat (map (pendingErrors h1) (take (25 - length (Fields ?r1)) fs)) @
                     concat (map (\<lambda>f. pendingErrors h1 f @ [limitError h1 (fragmentOf h1 f)])
                               (drop (25 - length (Fields ?r1)) fs)))\<rparr>)"
    by blast
  have m1: "\<And>n. map (fragmentOf h1) (take n fs) = map (fragmentOf h) (take n fs)"
    by (rule map_cong) (auto dest: in_set_takeD simp: frag)
  have m2: "\<And>n. map (pendingErrors h1) (take n fs) = map (pendingErrors h) (take n fs)"
    by (rule map_cong) (auto dest: in_set_takeD simp: pend)
  have m3: "\<And>n. map (\<lambda>f. pendingErrors h1 f @ [limitError h1 (fragmentOf h1 f)]) (drop n fs)
              = map (\<lambda>f. pendingErrors h f @ [limitError h (fragmentOf h f)]) (drop n fs)"
    by (rule map_cong) (auto dest: in_set_dropD simp: pend frag lim)
  have m4: "map (\<lambda>f. pendingErrors h1 f @ [limitError h1 (fragmentOf h1 f)]) fs
              = map (\<lambda>f. pendingErrors h f @ [limitError h (fragmentOf h f)]) fs"
    by (rule map_cong) (simp_all add: pend frag lim)
  have fragf: "fragmentOf h f = Fragment sb" and pendf: "pendingErrors h f = errorList (SubErrors sb)"
    using sb by (simp_all add: fragmentOf_def pendingErrors_def)
  have all: "addEachField (f # fs) e h = Inr h'"
    using step rest by simp
  show ?case
  proof (cases "length (Fields r) < 25")
    case True
    then have k: "25 - length (Fields r) = Suc (24 - length (Fields r))"
      by simp
    show ?thesis
      using all raw' held' True
      by (simp add: k m1 m2 m3 fragf pendf absorbed_append)
  next
    case False
    then have k: "25 - length (Fields r) = 0" by simp
    show ?thesis
      using all raw' held' False
      by (simp add: k m4 fragf pendf absorbed_append)
  qed
qed

lemma AddRawField_returns: "AddRawField f e h = Inr (e', h') \<Longrightarrow> e' = e"
  by (simp add: AddRawField_def returning_eq_Inr)

lemma AddField_returns: "AddField f e h = Inr (e', h') \<Longrightarrow> e' = e"
  by (auto simp: AddField_def andThen_eq_Inr dest: AddRawField_returns)

lemma chain_AddField: "chain vt (map CallAddField fs) e h = AddFields fs e h"
proof -
  have "chain vt (map CallAddField fs) e h = returning e (addEachField fs e h)"
  proof (induction fs arbitrary: h)
    case Nil
    show ?case by (simp add: returning_def)
  next
    case (Cons f fs)
    show ?case
    proof (cases "AddField f e h")
      case (Inl p)
      then show ?thesis by (simp add: returning_def)
    next
      case (Inr res)
      obtain e' h' where res: "res = (e', h')" by (cases res)
      with Inr have "e' = e" by (auto dest: AddField_returns)
      with Inr res show ?thesis by (simp add: Cons.IH)
    qed
  qed
  then show ?thesis by (simp add: AddFields_def)
qed

lemma twentySix_builder: "builderAt twentySix (Some 0) = Inr \<lparr>Embed = Some 0, Errors = None\<rparr>"
  by (simp add: twentySix_def builderAt_def load_def)

lemma twentySix_raw: "rawAt twentySix (Some 0) = Inr zeroEmbed"
  by (simp add: twentySix_def rawAt_def load_def)

lemma twentySix_fragment: "i < 26 \<Longrightarrow> fragmentOf twentySix (Some i) = Some i"
  by (simp add: twentySix_def fragmentOf_def load_def)

lemma twentySix_pending: "pendingErrors twentySix (Some i) = []"
  by (simp add: twentySix_def pendingErrors_def load_def errorList_def)

lemma twentySix_ok: "i < 26 \<Longrightarrow> fieldBuilderOk twentySix (Some i)"
  by (simp add: fieldBuilderOk_def twentySix_fragment) (simp add: twentySix_def live_def)

lemma twentySix_limitError:
  "limitError twentySix (Some 25) =
     Errorf fieldLimitReachedErrTemplateString [StrArg (replicate 25 (CHR ''n'')), IntArg 25]"
  by (simp add: limitError_def twentySix_def load_def)

text \<open>
  C3. For every embed builder that wraps an embed and every list \<open>fs\<close> of distinct Field
  builders, each wrapping a raw field: AddFields, which is the chain of AddField calls
  on \<open>fs\<close> in order, appends to the fields of the embed the raw fields of the first
  \<open>25 - n\<close> builders of \<open>fs\<close>, in order, where \<open>n\<close> is the number of fields the embed
  held; it appends to the error list the own errors of each of these builders, and then,
  for each later builder, its own errors followed by its own limit error. In
  particular, twenty-six builders, none holding a CollectionLimitReached error of its
  own, added to an embed with no field and no error, leave the raw fields of the first
  twenty-five, in order, and an error list with exactly one CollectionLimitReached
  error, the last one, which names the twenty-sixth field.
\<close>

theorem AddFields_limit:
  assumes "builderAt h e = Inr b" and "rawAt h e = Inr r" and "distinct fs"
    and "\<forall>f\<in>set fs. fieldBuilderOk h f"
  shows "\<exists>h'. AddFields fs e h = Inr (e, h') \<and>
           chain vt (map CallAddField fs) e h = Inr (e, h') \<and>
           rawAt h' e =
             Inr (r\<lparr>Fields := Fields r @ map (fragmentOf h) (take (25 - length (Fields r)) fs)\<rparr>) \<and>
           builderAt h' e =
             Inr (b\<lparr>Errors :=
                    (if concat (map (pendingErrors h) (take (25 - length (Fields r)) fs)) @
                        concat (map (\<lambda>f. pendingErrors h f @ [limitError h (fragmentOf h f)])
                                  (drop (25 - length (Fields r)) fs)) = []
                     then Errors b
                     else Some (errorList (Errors b) @
                        concat (map (pendingErrors h) (take (25 - length (Fields r)) fs)) @
                        concat (map (\<lambda>f. pendingErrors h f @ [limitError h (fragmentOf h f)])
                                  (drop (25 - length (Fields r)) fs))))\<rparr>) \<and>
           (Fields r = [] \<and> Errors b = None \<and> length fs = 26 \<and>
            (\<forall>f\<in>set fs. \<forall>x\<in>set (pendingErrors h f). errorKind x \<noteq> CollectionLimitReached) \<longrightarrow>
              rawAt h' e = Inr (r\<lparr>Fields := map (fragmentOf h) (take 25 fs)\<rparr>) \<and>
              length (map (fragmentOf h) (take 25 fs)) = 25 \<and>
              builderAt h' e =
                Inr (b\<lparr>Errors := Some (concat (map (pendingErrors h) fs) @
                                         [limitError h (fragmentOf h (fs ! 25))])\<rparr>) \<and>
              filter (\<lambda>x. errorKind x = CollectionLimitReached)
                (concat (map (pendingErrors h) fs) @ [limitError h (fragmentOf h (fs ! 25))])
                = [limitError h (fragmentOf h (fs ! 25))])"
proof -
  let ?k = "25 - length (Fields r)"
  let ?new = "concat (map (pendingErrors h) (take ?k fs)) @
              concat (map (\<lambda>f. pendingErrors h f @ [limitError h (fragmentOf h f)]) (drop ?k fs))"
  from addEachField_effect [OF assms] obtain h' where
    run: "addEachField fs e h = Inr h'" and
    raw: "rawAt h' e = Inr (r\<lparr>Fields := Fields r @ map (fragmentOf h) (take ?k fs)\<rparr>)" and
    held: "builderAt h' e = Inr (b\<lparr>Errors := absorbed (Errors b) ?new\<rparr>)"
    by blast
  have call: "AddFields fs e h = Inr (e, h')"
    using run by (simp add: AddFields_def returning_def)
  have special: "?new = concat (map (pendingErrors h) fs) @ [limitError h (fragmentOf h (fs ! 25))]"
    if "length fs = 26" and "Fields r = []"
  proof -
    have last: "drop 25 fs = [fs ! 25]"
      using that(1) Cons_nth_drop_Suc [of 25 fs] by simp
    have "concat (map (pendingErrors h) (take 25 fs @ drop 25 fs)) =
        concat (map (pendingErrors h) (take 25 fs)) @ concat (map (pendingErrors h) (drop 25 fs))"
      by (simp only: map_append concat_append)
    then have "concat (map (pendingErrors h) fs) =
        concat (map (pendingErrors h) (take 25 fs)) @ pendingErrors h (fs ! 25)"
      unfolding append_take_drop_id by (simp add: last)
    then show ?thesis
      using that(2) last by simp
  qed
  have one: "filter (\<lambda>x. errorKind x = CollectionLimitReached)
                (concat (map (pendingErrors h) fs) @ [limitError h (fragmentOf h (fs ! 25))])
                = [limitError h (fragmentOf h (fs ! 25))]"
    if "\<forall>f\<in>set fs. \<forall>x\<in>set (pendingErrors h f). errorKind x \<noteq> CollectionLimitReached"
  proof -
    have "filter (\<lambda>x. errorKind x = CollectionLimitReached) (concat (map (pendingErrors h) fs)) = []"
      using that by (auto simp: filter_empty_conv)
    then show ?thesis
      by (simp add: limitError_def)
  qed
  have general: "builderAt h' e =
      Inr (b\<lparr>Errors := (if ?new = [] then Errors b else Some (errorList (Errors b) @ ?new))\<rparr>)"
    using held by (simp add: absorbed_def)
  let ?empty = "Fields r = [] \<and> Errors b = None \<and> length fs = 26 \<and>
      (\<forall>f\<in>set fs. \<forall>x\<in>set (pendingErrors h f). errorKind x \<noteq> CollectionLimitReached)"
  let ?outcome = "rawAt h' e = Inr (r\<lparr>Fields := map (fragmentOf h) (take 25 fs)\<rparr>) \<and>
      length (map (fragmentOf h) (take 25 fs)) = 25 \<and>
      builderAt h' e =
        Inr (b\<lparr>Errors := Some (concat (map (pendingErrors h) fs) @
                                 [limitError h (fragmentOf h (fs ! 25))])\<rparr>) \<and>
      filter (\<lambda>x. errorKind x = CollectionLimitReached)
        (concat (map (pendingErrors h) fs) @ [limitError h (fragmentOf h (fs ! 25))])
        = [limitError h (fragmentOf h (fs ! 25))]"
  have empty: "?empty \<longrightarrow> ?outcome"
  proof
    assume ?empty
    then have none: "Fields r = []" and nil: "Errors b = None" and len: "length fs = 26"
      and kinds: "\<forall>f\<in>set fs. \<forall>x\<in>set (pendingErrors h f). errorKind x \<noteq> CollectionLimitReached"
      by blast+
    have "rawAt h' e = Inr (r\<lparr>Fields := map (fragmentOf h) (take 25 fs)\<rparr>)"
      using raw none by simp
    moreover have "length (map (fragmentOf h) (take 25 fs)) = 25"
      using len by simp
    moreover have "builderAt h' e =
        Inr (b\<lparr>Errors := Some (concat (map (pendingErrors h) fs) @
                                 [limitError h (fragmentOf h (fs ! 25))])\<rparr>)"
      using held nil unfolding special [OF len none] by (simp add: absorbed_def errorList_def)
    ultimately show ?outcome
      using one [OF kinds] by blast
  qed
  have same: "chain vt (map CallAddField fs) e h = Inr (e, h')"
    using call by (simp add: chain_AddField)
  show ?thesis
    by (rule exI [of _ h'], intro conjI) (rule call same raw general empty)+
qed

theorem AddFields_limit_witness:
  "builderAt twentySix (Some 0) = Inr \<lparr>Embed = Some 0, Errors = None\<rparr> \<and>
   rawAt twentySix (Some 0) = Inr zeroEmbed \<and>
   distinct (map Some [0..<26]) \<and>
   list_all (fieldBuilderOk twentySix) (map Some [0..<26]) \<and>
   (\<exists>h'. AddFields (map Some [0..<26]) (Some 0) twentySix = Inr (Some 0, h') \<and>
         chain [] (map CallAddField (map Some [0..<26])) (Some 0) twentySix = Inr (Some 0, h') \<and>
         rawAt h' (Some 0) = Inr (zeroEmbed\<lparr>Fields := map Some [0..<25]\<rparr>) \<and>
         builderAt h' (Some 0) =
           Inr \<lparr>Embed = Some 0, Errors = Some
             [Errorf fieldLimitReachedErrTemplateString
                [StrArg (replicate 25 (CHR ''n'')), IntArg 25]]\<rparr>)"
proof -
  have d: "distinct (map Some [0..<26])"
    by (simp add: distinct_map)
  have ok: "\<forall>f\<in>set (map Some [0..<26]). fieldBuilderOk twentySix f"
    by (auto simp: twentySix_ok)
  have kinds: "\<forall>f\<in>set (map Some [0..<26]). \<forall>x\<in>set (pendingErrors twentySix f).
      errorKind x \<noteq> CollectionLimitReached"
    by (auto simp: twentySix_pending)
  have none: "concat (map (pendingErrors twentySix) (map Some [0..<26])) = []"
    by (auto simp: twentySix_pending)
  have frags: "map (fragmentOf twentySix) (take 25 (map Some [0..<26])) = map Some [0..<25]"
    by (simp add: take_map twentySix_fragment)
  have last: "map Some [0..<26] ! 25 = Some 25"
    by simp
  from AddFields_limit [OF twentySix_builder twentySix_raw d ok, of "[]"]
  obtain h' where
    "AddFields (map Some [0..<26]) (Some 0) twentySix = Inr (Some 0, h')"
    "chain [] (map CallAddField (map Some [0..<26])) (Some 0) twentySix = Inr (Some 0, h')"
    "Fields zeroEmbed = [] \<and> Errors \<lparr>Embed = Some 0, Errors = None\<rparr> = None \<and>
       length (map Some [0..<26]) = 26 \<and>
       (\<forall>f\<in>set (map Some [0..<26]). \<forall>x\<in>set (pendingErrors twentySix f).
          errorKind x \<noteq> CollectionLimitReached) \<longrightarrow>
     rawAt h' (Some 0) =
       Inr (zeroEmbed\<lparr>Fields := map (fragmentOf twentySix) (take 25 (map Some [0..<26]))\<rparr>) \<and>
     builderAt h' (Some 0) =
       Inr (\<lparr>Embed = Some 0, Errors = None\<rparr>
              \<lparr>Errors := Some (concat (map (pendingErrors twentySix) (map Some [0..<26])) @
                 [limitError twentySix (fragmentOf twentySix (map Some [0..<26] ! 25))])\<rparr>)"
    by blast
  then show ?thesis
    using twentySix_builder twentySix_raw d ok kinds
    unfolding frags last none list_all_iff
    by (intro conjI exI [of _ h']) (simp_all add: zeroEmbed_def twentySix_fragment twentySix_limitError)
qed

text \<open>
  C10. For every embed builder whose embed already holds 25 fields (or more) and every
  Field builder \<open>f\<close> that wraps a raw field: AddField still finalizes \<open>f\<close> (its error list
  is nil afterwards), leaves the embed as it was, and appends to the error list of the
  embed builder first the errors \<open>f\<close> held and then the CollectionLimitReached error
  that names the dropped field.
\<close>

theorem AddField_when_full:
  assumes "builderAt h e = Inr b" and "rawAt h e = Inr r" and "25 \<le> length (Fields r)"
    and "load (subBuilders h) f = Inr sb" and "load (rawFields h) (Fragment sb) = Inr x"
  shows "\<exists>h'. AddField f e h = Inr (e, h') \<and>
           load (subBuilders h') f = Inr (sb\<lparr>SubErrors := None\<rparr>) \<and>
           rawEmbeds h' = rawEmbeds h \<and> rawAt h' e = Inr r \<and>
           builderAt h' e =
             Inr (b\<lparr>Errors := Some (errorList (Errors b) @ errorList (SubErrors sb) @
                    [Errorf fieldLimitReachedErrTemplateString [StrArg (Name x), IntArg 25]])\<rparr>) \<and>
           errorKind (Errorf fieldLimitReachedErrTemplateString [StrArg (Name x), IntArg 25])
             = CollectionLimitReached"
proof -
  from AddField_effect [OF assms(1,2,4,5)] obtain h' where
    "AddField f e h = Inr (e, h')"
    "builderAt h' e =
       Inr (b\<lparr>Errors := absorbed (Errors b)
              (errorList (SubErrors sb) @
               (if length (Fields r) < 25 then [] else [limitError h (Fragment sb)]))\<rparr>)"
    "rawAt h' e = Inr (if length (Fields r) < 25 then r\<lparr>Fields := Fields r @ [Fragment sb]\<rparr> else r)"
    "load (subBuilders h') f = Inr (sb\<lparr>SubErrors := None\<rparr>)"
    "\<not> length (Fields r) < 25 \<longrightarrow> rawEmbeds h' = rawEmbeds h"
    by blast
  then show ?thesis
    using assms(3,5)
    by (intro exI [of _ h']) (simp add: absorbed_def limitError_def)
qed

theorem AddField_when_full_witness:
  "builderAt full (Some 0) = Inr \<lparr>Embed = Some 0, Errors = None\<rparr> \<and>
   rawAt full (Some 0) = Inr (zeroEmbed\<lparr>Fields := replicate 25 (Some 0)\<rparr>) \<and>
   25 \<le> length (Fields (zeroEmbed\<lparr>Fields := replicate 25 (Some 0)\<rparr>)) \<and>
   load (subBuilders full) (Some 0) = Inr \<lparr>Fragment = Some 1, SubErrors = Some [nameTooLong]\<rparr> \<and>
   load (rawFields full) (Some 1) = Inr \<lparr>Name = ''late'', Value = ''value'', Inline = True\<rparr> \<and>
   (\<exists>h'. AddField (Some 0) (Some 0) full = Inr (Some 0, h') \<and>
         load (subBuilders h') (Some 0) = Inr \<lparr>Fragment = Some 1, SubErrors = None\<rparr> \<and>
         rawAt h' (Some 0) = Inr (zeroEmbed\<lparr>Fields := replicate 25 (Some 0)\<rparr>) \<and>
         builderAt h' (Some 0) =
           Inr \<lparr>Embed = Some 0, Errors = Some
             [nameTooLong, Errorf fieldLimitReachedErrTemplateString [StrArg ''late'', IntArg 25]]\<rparr>)"
proof -
  have b: "builderAt full (Some 0) = Inr \<lparr>Embed = Some 0, Errors = None\<rparr>"
    by (simp add: full_def builderAt_def load_def)
  have r: "rawAt full (Some 0) = Inr (zeroEmbed\<lparr>Fields := replicate 25 (Some 0)\<rparr>)"
    by (simp add: full_def rawAt_def load_def)
  have n: "25 \<le> length (Fields (zeroEmbed\<lparr>Fields := replicate 25 (Some 0)\<rparr>))"
    by simp
  have sb: "load (subBuilders full) (Some 0) = Inr \<lparr>Fragment = Some 1, SubErrors = Some [nameTooLong]\<rparr>"
    by (simp add: full_def load_def)
  have x: "load (rawFields full) (Fragment \<lparr>Fragment = Some 1, SubErrors = Some [nameTooLong]\<rparr>)
             = Inr \<lparr>Name = ''late'', Value = ''value'', Inline = True\<rparr>"
    by (simp add: full_def load_def)
  show ?thesis
    using b r n sb x AddField_when_full [OF b r n sb x]
    by (auto simp: errorList_def)
qed

section \<open>Errors of a sub-builder\<close>

lemma attach_effect:
  assumes "builderAt h e = Inr b" and "rawAt h e = Inr r"
    and "load (subBuilders h) p = Inr sb"
  shows "\<exists>h'. andThen (FinalizeSub p h) (\<lambda>((res, errs), h1).
               andThen (addAllRawErrors errs e h1) (\<lambda>h2. returning e (assign (f res) e h2)))
             = Inr (e, h') \<and>
           rawAt h' e = Inr (f (Fragment sb) r) \<and>
           load (subBuilders h') p = Inr (sb\<lparr>SubErrors := None\<rparr>) \<and>
           builderAt h' e = Inr (b\<lparr>Errors := absorbed (Errors b) (errorList (SubErrors sb))\<rparr>)"
proof -
  let ?h1 = "afterAbsorb p e h"
  let ?b1 = "b\<lparr>Errors := absorbed (Errors b) (errorList (SubErrors sb))\<rparr>"
  let ?h' = "?h1\<lparr>rawEmbeds := (rawEmbeds ?h1)[the (Embed ?b1) := f (Fragment sb) r]\<rparr>"
  have held: "builderAt ?h1 e = Inr ?b1" and raw: "rawAt ?h1 e = Inr r"
    using afterAbsorb_facts(1,2) [OF assms(1,3)] assms(2) by simp_all
  have "andThen (FinalizeSub p h) (\<lambda>((res, errs), h1).
               andThen (addAllRawErrors errs e h1) (\<lambda>h2. returning e (assign (f res) e h2)))
        = Inr (e, ?h')"
    unfolding absorb_then [OF assms(1,3)] returning_def assign_loaded [OF held raw]
    by simp
  moreover have "builderAt ?h' e = Inr ?b1"
    using held by (simp add: builderAt_def)
  moreover have "rawAt ?h' e = Inr (f (Fragment sb) r)"
    using rawAt_assigned [OF held raw] .
  moreover have "load (subBuilders ?h') p = Inr (sb\<lparr>SubErrors := None\<rparr>)"
    using afterAbsorb_facts(5) [OF assms(1,3)] by simp
  ultimately show ?thesis
    by blast
qed

text \<open>
  C5. For every embed builder that wraps an embed and every sub-builder \<open>p\<close>: each of
  SetFooter, SetAuthor, SetThumbnail, SetProvider, SetVideo and SetImage finalizes \<open>p\<close>
  (its error list is nil afterwards), appends the errors \<open>p\<close> held, in their order and
  as they are, to the errors the embed builder holds (allocating nothing when \<open>p\<close> held
  none) and attaches the raw fragment of \<open>p\<close> in its place; AddField does the same with
  a Field builder when the embed has room for the field. After SetFooter the next
  Finalize of the embed returns that list; in particular, when the embed builder held
  no error and the footer builder held exactly one, \<open>x\<close>, Finalize returns the list of
  exactly \<open>x\<close>.
\<close>

theorem attach_absorbs:
  assumes "builderAt h e = Inr b" and "rawAt h e = Inr r"
    and "load (subBuilders h) p = Inr sb"
  shows "(\<exists>h' h''. SetFooter p e h = Inr (e, h') \<and>
           rawAt h' e = Inr (r\<lparr>Footer := Fragment sb\<rparr>) \<and>
           load (subBuilders h') p = Inr (sb\<lparr>SubErrors := None\<rparr>) \<and>
           builderAt h' e =
             Inr (b\<lparr>Errors := (if errorList (SubErrors sb) = [] then Errors b
                                else Some (errorList (Errors b) @ errorList (SubErrors sb)))\<rparr>) \<and>
           Finalize e h' =
             Inr ((Embed b, (if errorList (SubErrors sb) = [] then Errors b
                             else Some (errorList (Errors b) @ errorList (SubErrors sb)))), h'') \<and>
           (Errors b = None \<and> SubErrors sb = Some [x] \<longrightarrow>
              Finalize e h' = Inr ((Embed b, Some [x]), h''))) \<and>
         (\<exists>h'. SetAuthor p e h = Inr (e, h') \<and>
           rawAt h' e = Inr (r\<lparr>Author := Fragment sb\<rparr>) \<and>
           load (subBuilders h') p = Inr (sb\<lparr>SubErrors := None\<rparr>) \<and>
           builderAt h' e =
             Inr (b\<lparr>Errors := (if errorList (SubErrors sb) = [] then Errors b
                                else Some (errorList (Errors b) @ errorList (SubErrors sb)))\<rparr>)) \<and>
         (\<exists>h'. SetThumbnail p e h = Inr (e, h') \<and>
           rawAt h' e = Inr (r\<lparr>Thumbnail := Fragment sb\<rparr>) \<and>
           load (subBuilders h') p = Inr (sb\<lparr>SubErrors := None\<rparr>) \<and>
           builderAt h' e =
             Inr (b\<lparr>Errors := (if errorList (SubErrors sb) = [] then Errors b
                                else Some (errorList (Errors b) @ errorList (SubErrors sb)))\<rparr>)) \<and>
         (\<exists>h'. SetProvider p e h = Inr (e, h') \<and>
           rawAt h' e = Inr (r\<lparr>Provider := Fragment sb\<rparr>) \<and>
           load (subBuilders h') p = Inr (sb\<lparr>SubErrors := None\<rparr>) \<and>
           builderAt h' e =
             Inr (b\<lparr>Errors := (if errorList (SubErrors sb) = [] then Errors b
                                else Some (errorList (Errors b) @ errorList (SubErrors sb)))\<rparr>)) \<and>
         (\<exists>h'. SetVideo p e h = Inr (e, h') \<and>
           rawAt h' e = Inr (r\<lparr>Video := Fragment sb\<rparr>) \<and>
           load (subBuilders h') p = Inr (sb\<lparr>SubErrors := None\<rparr>) \<and>
           builderAt h' e =
             Inr (b\<lparr>Errors := (if errorList (SubErrors sb) = [] then Errors b
                                else Some (errorList (Errors b) @ errorList (SubErrors sb)))\<rparr>)) \<and>
         (\<exists>h'. SetImage p e h = Inr (e, h') \<and>
           rawAt h' e = Inr (r\<lparr>Image := Fragment sb\<rparr>) \<and>
           load (subBuilders h') p = Inr (sb\<lparr>SubErrors := None\<rparr>) \<and>
           builderAt h' e =
             Inr (b\<lparr>Errors := (if errorList (SubErrors sb) = [] then Errors b
                                else Some (errorList (Errors b) @ errorList (SubErrors sb)))\<rparr>)) \<and>
         (length (Fields r) < 25 \<longrightarrow>
           (\<exists>h'. AddField p e h = Inr (e, h') \<and>
             rawAt h' e = Inr (r\<lparr>Fields := Fields r @ [Fragment sb]\<rparr>) \<and>
             load (subBuilders h') p = Inr (sb\<lparr>SubErrors := None\<rparr>) \<and>
             builderAt h' e =
               Inr (b\<lparr>Errors := (if errorList (SubErrors sb) = [] then Errors b
                                  else Some (errorList (Errors b) @ errorList (SubErrors sb)))\<rparr>)))"
proof -
  let ?E = "if errorList (SubErrors sb) = [] then Errors b
            else Some (errorList (Errors b) @ errorList (SubErrors sb))"
  have E: "absorbed (Errors b) (errorList (SubErrors sb)) = ?E"
    by (simp add: absorbed_def)
  note attach = attach_effect [OF assms, unfolded E]
  have footer: "\<exists>h' h''. SetFooter p e h = Inr (e, h') \<and>
           rawAt h' e = Inr (r\<lparr>Footer := Fragment sb\<rparr>) \<and>
           load (subBuilders h') p = Inr (sb\<lparr>SubErrors := None\<rparr>) \<and>
           builderAt h' e = Inr (b\<lparr>Errors := ?E\<rparr>) \<and>
           Finalize e h' = Inr ((Embed b, ?E), h'') \<and>
           (Errors b = None \<and> SubErrors sb = Some [x] \<longrightarrow>
              Finalize e h' = Inr ((Embed b, Some [x]), h''))"
  proof -
    from attach [of "\<lambda>res r. r\<lparr>Footer := res\<rparr>"] obtain h' where
      run: "SetFooter p e h = Inr (e, h')" and
      raw: "rawAt h' e = Inr (r\<lparr>Footer := Fragment sb\<rparr>)" and
      sub: "load (subBuilders h') p = Inr (sb\<lparr>SubErrors := None\<rparr>)" and
      held: "builderAt h' e = Inr (b\<lparr>Errors := ?E\<rparr>)"
      unfolding SetFooter_def SetRawFooter_def by blast
    show ?thesis
      using run raw sub held Finalize_loaded [OF held]
      by (auto simp: errorList_def)
  qed
  have author: "\<exists>h'. SetAuthor p e h = Inr (e, h') \<and>
           rawAt h' e = Inr (r\<lparr>Author := Fragment sb\<rparr>) \<and>
           load (subBuilders h') p = Inr (sb\<lparr>SubErrors := None\<rparr>) \<and>
           builderAt h' e = Inr (b\<lparr>Errors := ?E\<rparr>)"
    using attach [of "\<lambda>res r. r\<lparr>Author := res\<rparr>"]
    unfolding SetAuthor_def SetRawAuthor_def .
  have thumbnail: "\<exists>h'. SetThumbnail p e h = Inr (e, h') \<and>
           rawAt h' e = Inr (r\<lparr>Thumbnail := Fragment sb\<rparr>) \<and>
           load (subBuilders h') p = Inr (sb\<lparr>SubErrors := None\<rparr>) \<and>
           builderAt h' e = Inr (b\<lparr>Errors := ?E\<rparr>)"
    using attach [of "\<lambda>res r. r\<lparr>Thumbnail := res\<rparr>"]
    unfolding SetThumbnail_def SetRawThumbnail_def .
  have provider: "\<exists>h'. SetProvider p e h = Inr (e, h') \<and>
           rawAt h' e = Inr (r\<lparr>Provider := Fragment sb\<rparr>) \<and>
           load (subBuilders h') p = Inr (sb\<lparr>SubErrors := None\<rparr>) \<and>
           builderAt h' e = Inr (b\<lparr>Errors := ?E\<rparr>)"
    using attach [of "\<lambda>res r. r\<lparr>Provider := res\<rparr>"]
    unfolding SetProvider_def SetRawProvider_def provider_check .
  have video: "\<exists>h'. SetVideo p e h = Inr (e, h') \<and>
           rawAt h' e = Inr (r\<lparr>Video := Fragment sb\<rparr>) \<and>
           load (subBuilders h') p = Inr (sb\<lparr>SubErrors := None\<rparr>) \<and>
           builderAt h' e = Inr (b\<lparr>Errors := ?E\<rparr>)"
    using attach [of "\<lambda>res r. r\<lparr>Video := res\<rparr>"]
    unfolding SetVideo_def SetRawVideo_def .
  have image: "\<exists>h'. SetImage p e h = Inr (e, h') \<and>
           rawAt h' e = Inr (r\<lparr>Image := Fragment sb\<rparr>) \<and>
           load (subBuilders h') p = Inr (sb\<lparr>SubErrors := None\<rparr>) \<and>
           builderAt h' e = Inr (b\<lparr>Errors := ?E\<rparr>)"
    using attach [of "\<lambda>res r. r\<lparr>Image := res\<rparr>"]
    unfolding SetImage_def SetRawImage_def .
  have field: "length (Fields r) < 25 \<longrightarrow>
           (\<exists>h'. AddField p e h = Inr (e, h') \<and>
             rawAt h' e = Inr (r\<lparr>Fields := Fields r @ [Fragment sb]\<rparr>) \<and>
             load (subBuilders h') p = Inr (sb\<lparr>SubErrors := None\<rparr>) \<and>
             builderAt h' e = Inr (b\<lparr>Errors := ?E\<rparr>))"
  proof
    assume room: "length (Fields r) < 25"
    let ?h1 = "afterAbsorb p e h"
    let ?b1 = "b\<lparr>Errors := absorbed (Errors b) (errorList (SubErrors sb))\<rparr>"
    let ?h' = "?h1\<lparr>rawEmbeds := (rawEmbeds ?h1)[the (Embed ?b1) := r\<lparr>Fields := Fields r @ [Fragment sb]\<rparr>]\<rparr>"
    have held: "builderAt ?h1 e = Inr ?b1" and raw: "rawAt ?h1 e = Inr r"
      using afterAbsorb_facts(1,2) [OF assms(1,3)] assms(2) by simp_all
    have "AddField p e h = Inr (e, ?h')"
      unfolding AddField_def absorb_then [OF assms(1,3)]
      by (rule AddRawField_accepts [OF held raw room])
    moreover have "builderAt ?h' e = Inr (b\<lparr>Errors := ?E\<rparr>)"
      using held by (simp add: builderAt_def E)
    moreover have "rawAt ?h' e = Inr (r\<lparr>Fields := Fields r @ [Fragment sb]\<rparr>)"
      using rawAt_assigned [OF held raw] .
    moreover have "load (subBuilders ?h') p = Inr (sb\<lparr>SubErrors := None\<rparr>)"
      using afterAbsorb_facts(5) [OF assms(1,3)] by simp
    ultimately show "\<exists>h'. AddField p e h = Inr (e, h') \<and>
             rawAt h' e = Inr (r\<lparr>Fields := Fields r @ [Fragment sb]\<rparr>) \<and>
             load (subBuilders h') p = Inr (sb\<lparr>SubErrors := None\<rparr>) \<and>
             builderAt h' e = Inr (b\<lparr>Errors := ?E\<rparr>)"
      by blast
  qed
  show ?thesis
    by (intro conjI) (rule footer author thumbnail provider video image field)+
qed

theorem attach_absorbs_witness:
  "builderAt withFooter (Some 0) = Inr \<lparr>Embed = Some 0, Errors = None\<rparr> \<and>
   rawAt withFooter (Some 0) = Inr zeroEmbed \<and>
   load (subBuilders withFooter) (Some 0) = Inr \<lparr>Fragment = Some 0, SubErrors = Some [footerTooLong]\<rparr> \<and>
   (\<exists>h' h''. SetFooter (Some 0) (Some 0) withFooter = Inr (Some 0, h') \<and>
         rawAt h' (Some 0) = Inr (zeroEmbed\<lparr>Footer := Some 0\<rparr>) \<and>
         Finalize (Some 0) h' = Inr ((Some 0, Some [footerTooLong]), h'')) \<and>
   (\<exists>h'. SetImage (Some 0) (Some 0) withFooter = Inr (Some 0, h') \<and>
         rawAt h' (Some 0) = Inr (zeroEmbed\<lparr>Image := Some 0\<rparr>) \<and>
         builderAt h' (Some 0) = Inr \<lparr>Embed = Some 0, Errors = Some [footerTooLong]\<rparr>)"
proof -
  have b: "builderAt withFooter (Some 0) = Inr \<lparr>Embed = Some 0, Errors = None\<rparr>"
    by (simp add: withFooter_def builderAt_def load_def)
  have r: "rawAt withFooter (Some 0) = Inr zeroEmbed"
    by (simp add: withFooter_def rawAt_def load_def)
  have sb: "load (subBuilders withFooter) (Some 0) = Inr \<lparr>Fragment = Some 0, SubErrors = Some [footerTooLong]\<rparr>"
    by (simp add: withFooter_def load_def)
  show ?thesis
    using b r sb attach_absorbs [OF b r sb, of footerTooLong]
    by (auto simp: errorList_def)
qed

section \<open>Inline flags\<close>

lemma setInlineEach_effect:
  assumes "\<forall>f\<in>set fs. live m f"
  shows "\<exists>m'. setInlineEach v fs m = Inr m' \<and> length m' = length m \<and>
           (\<forall>a<length m. m' ! a = (if Some a \<in> set fs then (m ! a)\<lparr>Inline := v\<rparr> else m ! a))"
  using assms
proof (induction fs arbitrary: m)
  case Nil
  then show ?case by simp
next
  case (Cons f fs)
  from Cons.prems obtain a where f: "f = Some a" and a: "a < length m"
    by (auto simp: live_def split: option.splits)
  let ?m1 = "m[a := (m ! a)\<lparr>Inline := v\<rparr>]"
  have step: "modify (\<lambda>x. x\<lparr>Inline := v\<rparr>) f m = Inr ?m1"
    using f a by (simp add: modify_def)
  have "\<forall>f\<in>set fs. live ?m1 f"
    using Cons.prems by (simp add: live_same_length [of ?m1 m])
  from Cons.IH [OF this] obtain m' where
    run: "setInlineEach v fs ?m1 = Inr m'" and len: "length m' = length ?m1" and
    each: "\<forall>i<length ?m1. m' ! i = (if Some i \<in> set fs then (?m1 ! i)\<lparr>Inline := v\<rparr> else ?m1 ! i)"
    by blast
  have "setInlineEach v (f # fs) m = Inr m'"
    using step run by simp
  moreover have "length m' = length m"
    using len by simp
  moreover have "\<forall>i<length m. m' ! i = (if Some i \<in> set (f # fs) then (m ! i)\<lparr>Inline := v\<rparr> else m ! i)"
    using each f a by (auto simp: nth_list_update)
  ultimately show ?case by blast
qed

text \<open>
  C6. For every embed builder that wraps an embed whose attached fields are all raw
  fields of the store, whatever their inline flags: InlineAllFields followed by
  OutlineAllFields returns the builder both times, leaves the embed as it was, and
  leaves every attached field as it was except for its inline flag, which is true after
  the first call and false after the second.
\<close>

theorem Inline_then_Outline:
  assumes "rawAt h e = Inr r" and "\<forall>f\<in>set (Fields r). live (rawFields h) f"
  shows "\<exists>h1 h2. InlineAllFields e h = Inr (e, h1) \<and> OutlineAllFields e h1 = Inr (e, h2) \<and>
           rawAt h1 e = Inr r \<and> rawAt h2 e = Inr r \<and>
           (\<forall>f\<in>set (Fields r). \<exists>x.
              load (rawFields h) f = Inr x \<and>
              load (rawFields h1) f = Inr (x\<lparr>Inline := True\<rparr>) \<and>
              load (rawFields h2) f = Inr (x\<lparr>Inline := False\<rparr>))"
proof -
  from setInlineEach_effect [OF assms(2), of True] obtain m1 where
    in1: "setInlineEach True (Fields r) (rawFields h) = Inr m1" and len1: "length m1 = length (rawFields h)" and
    each1: "\<forall>a<length (rawFields h). m1 ! a =
              (if Some a \<in> set (Fields r) then (rawFields h ! a)\<lparr>Inline := True\<rparr> else rawFields h ! a)"
    by blast
  let ?h1 = "h\<lparr>rawFields := m1\<rparr>"
  have live1: "\<forall>f\<in>set (Fields r). live m1 f"
    using assms(2) by (simp add: live_same_length [OF len1])
  from setInlineEach_effect [OF live1, of False] obtain m2 where
    in2: "setInlineEach False (Fields r) m1 = Inr m2" and len2: "length m2 = length m1" and
    each2: "\<forall>a<length m1. m2 ! a =
              (if Some a \<in> set (Fields r) then (m1 ! a)\<lparr>Inline := False\<rparr> else m1 ! a)"
    by blast
  let ?h2 = "?h1\<lparr>rawFields := m2\<rparr>"
  have raw1: "rawAt ?h1 e = Inr r" and raw2: "rawAt ?h2 e = Inr r"
    using assms(1) by (simp_all add: rawAt_def)
  have call1: "InlineAllFields e h = Inr (e, ?h1)"
    using assms(1) in1 by (simp add: InlineAllFields_def returning_def)
  have call2: "OutlineAllFields e ?h1 = Inr (e, ?h2)"
    using raw1 in2 by (simp add: OutlineAllFields_def returning_def)
  have flags: "\<exists>x. load (rawFields h) f = Inr x \<and>
              load (rawFields ?h1) f = Inr (x\<lparr>Inline := True\<rparr>) \<and>
              load (rawFields ?h2) f = Inr (x\<lparr>Inline := False\<rparr>)"
    if "f \<in> set (Fields r)" for f
  proof -
    from assms(2) that obtain a where "f = Some a" "a < length (rawFields h)"
      by (auto simp: live_def split: option.splits)
    then show ?thesis
      using that each1 each2 len1 len2 by (simp add: load_def)
  qed
  show ?thesis
    using call1 call2 raw1 raw2 flags by blast
qed

theorem Inline_then_Outline_witness:
  "rawAt mixed (Some 0) = Inr (zeroEmbed\<lparr>Fields := [Some 0, Some 1, Some 0]\<rparr>) \<and>
   list_all (live (rawFields mixed)) (Fields (zeroEmbed\<lparr>Fields := [Some 0, Some 1, Some 0]\<rparr>)) \<and>
   (\<exists>h1 h2. InlineAllFields (Some 0) mixed = Inr (Some 0, h1) \<and>
         OutlineAllFields (Some 0) h1 = Inr (Some 0, h2) \<and>
         load (rawFields h2) (Some 0) = Inr \<lparr>Name = ''a'', Value = ''1'', Inline = False\<rparr> \<and>
         load (rawFields h2) (Some 1) = Inr \<lparr>Name = ''b'', Value = ''2'', Inline = False\<rparr>)"
proof -
  have r: "rawAt mixed (Some 0) = Inr (zeroEmbed\<lparr>Fields := [Some 0, Some 1, Some 0]\<rparr>)"
    by (simp add: mixed_def rawAt_def load_def)
  have l: "\<forall>f\<in>set (Fields (zeroEmbed\<lparr>Fields := [Some 0, Some 1, Some 0]\<rparr>)). live (rawFields mixed) f"
    by (simp add: mixed_def live_def)
  have x0: "load (rawFields mixed) (Some 0) = Inr \<lparr>Name = ''a'', Value = ''1'', Inline = True\<rparr>"
    and x1: "load (rawFields mixed) (Some 1) = Inr \<lparr>Name = ''b'', Value = ''2'', Inline = False\<rparr>"
    by (simp_all add: mixed_def load_def)
  from Inline_then_Outline [OF r l] obtain h1 h2 where
    "InlineAllFields (Some 0) mixed = Inr (Some 0, h1)"
    "OutlineAllFields (Some 0) h1 = Inr (Some 0, h2)"
    "\<forall>f\<in>set (Fields (zeroEmbed\<lparr>Fields := [Some 0, Some 1, Some 0]\<rparr>)). \<exists>x.
        load (rawFields mixed) f = Inr x \<and>
        load (rawFields h1) f = Inr (x\<lparr>Inline := True\<rparr>) \<and>
        load (rawFields h2) f = Inr (x\<lparr>Inline := False\<rparr>)"
    by blast
  then show ?thesis
    using r l x0 x1 unfolding list_all_iff by (intro conjI exI [of _ h1] exI [of _ h2]) auto
qed

section \<open>The error list is nil until an error is recorded\<close>

lemma assign_frame:
  "assign f e h = Inr h' \<Longrightarrow>
     embedBuilders h' = embedBuilders h \<and> rawFields h' = rawFields h \<and> subBuilders h' = subBuilders h"
  by (auto simp: assign_def andThen_eq_Inr)

lemma grows_refl: "builderAt h e = Inr b \<Longrightarrow> \<exists>new. builderAt h e = Inr (b\<lparr>Errors := absorbed (Errors b) new\<rparr>)"
  by (rule exI [of _ "[]"]) simp

lemma grows_assign:
  assumes "returning e (assign f e h) = Inr (e', h')" and "builderAt h e = Inr b"
  shows "e' = e \<and> (\<exists>new. builderAt h' e = Inr (b\<lparr>Errors := absorbed (Errors b) new\<rparr>))"
proof -
  from assms(1) have "e' = e" and "assign f e h = Inr h'"
    by (simp_all add: returning_eq_Inr)
  then show ?thesis
    using assms(2) grows_refl [of h' e b] by (auto simp: builderAt_def dest: assign_frame)
qed

lemma grows_addError:
  assumes "returning e (addError t vs e h) = Inr (e', h')" and "builderAt h e = Inr b"
  shows "e' = e \<and> (\<exists>new. builderAt h' e = Inr (b\<lparr>Errors := absorbed (Errors b) new\<rparr>))"
proof -
  from assms have "e' = e" and
    "h' = h\<lparr>embedBuilders := (embedBuilders h)[the e := b\<lparr>Errors := Some (errorList (Errors b) @ [Errorf t vs])\<rparr>]\<rparr>"
    by (simp_all add: returning_eq_Inr addError_def addRawError_loaded)
  then show ?thesis
    using builderAt_update [OF assms(2)]
    by (auto intro!: exI [of _ "[Errorf t vs]"] simp: absorbed_def)
qed

lemma grows_guarded:
  assumes "returning e (if ok then assign f e h else addError t vs e h) = Inr (e', h')"
    and "builderAt h e = Inr b"
  shows "e' = e \<and> (\<exists>new. builderAt h' e = Inr (b\<lparr>Errors := absorbed (Errors b) new\<rparr>))"
  using assms grows_assign [of e f h e' h' b] grows_addError [of e t vs h e' h' b]
  by (cases ok) simp_all

lemma FinalizeSub_Inr:
  "FinalizeSub p h = Inr res \<Longrightarrow> \<exists>sb. load (subBuilders h) p = Inr sb"
  by (auto simp: FinalizeSub_def andThen_eq_Inr)

lemma grows_absorb:
  assumes "andThen (FinalizeSub p h) (\<lambda>((res, errs), h1).
             andThen (addAllRawErrors errs e h1) (\<lambda>h2. returning e (assign (f res) e h2))) = Inr (e', h')"
    and "builderAt h e = Inr b"
  shows "e' = e \<and> (\<exists>new. builderAt h' e = Inr (b\<lparr>Errors := absorbed (Errors b) new\<rparr>))"
proof -
  from assms(1) obtain sb where sb: "load (subBuilders h) p = Inr sb"
    by (auto simp: andThen_eq_Inr dest: FinalizeSub_Inr)
  let ?b1 = "b\<lparr>Errors := absorbed (Errors b) (errorList (SubErrors sb))\<rparr>"
  have held: "builderAt (afterAbsorb p e h) e = Inr ?b1"
    by (rule afterAbsorb_facts(1) [OF assms(2) sb])
  have "returning e (assign (f (Fragment sb)) e (afterAbsorb p e h)) = Inr (e', h')"
    using assms(1) unfolding absorb_then [OF assms(2) sb] .
  from grows_assign [OF this held] show ?thesis
    by (auto simp: absorbed_append)
qed

lemma grows_inline:
  assumes "returning e (andThen (rawAt h e) (\<lambda>r.
             andThen (setInlineEach v (Fields r) (rawFields h)) (\<lambda>m. Inr (h\<lparr>rawFields := m\<rparr>)))) = Inr (e', h')"
    and "builderAt h e = Inr b"
  shows "e' = e \<and> (\<exists>new. builderAt h' e = Inr (b\<lparr>Errors := absorbed (Errors b) new\<rparr>))"
proof -
  from assms(1) obtain m where "e' = e" "h' = h\<lparr>rawFields := m\<rparr>"
    by (auto simp: returning_eq_Inr andThen_eq_Inr)
  then show ?thesis
    using assms(2) grows_refl [of h' e b] by (simp add: builderAt_def)
qed

lemma grows_AddRawField:
  assumes "AddRawField f e h = Inr (e', h')" and "builderAt h e = Inr b"
  shows "e' = e \<and> (\<exists>new. builderAt h' e = Inr (b\<lparr>Errors := absorbed (Errors b) new\<rparr>))"
proof -
  from assms(1) obtain r where r: "rawAt h e = Inr r"
    by (auto simp: AddRawField_def returning_eq_Inr andThen_eq_Inr)
  show ?thesis
  proof (cases "int (length (Fields r)) < maxFieldCount")
    case True
    with assms(1) r have "returning e (assign (\<lambda>r. r\<lparr>Fields := Fields r @ [f]\<rparr>) e h) = Inr (e', h')"
      by (simp add: AddRawField_def)
    from grows_assign [OF this assms(2)] show ?thesis .
  next
    case False
    with assms(1) r obtain x :: disgord_EmbedField where
      "e' = e" and
      "addError fieldLimitReachedErrTemplateString [StrArg (Name x), IntArg maxFieldCount] e h = Inr h'"
      by (auto simp: AddRawField_def returning_eq_Inr andThen_eq_Inr)
    then have
      "returning e (addError fieldLimitReachedErrTemplateString [StrArg (Name x), IntArg maxFieldCount] e h)
         = Inr (e', h')"
      by (simp add: returning_eq_Inr)
    from grows_addError [OF this assms(2)] show ?thesis .
  qed
qed

lemma grows_AddField:
  assumes "AddField f e h = Inr (e', h')" and "builderAt h e = Inr b"
  shows "e' = e \<and> (\<exists>new. builderAt h' e = Inr (b\<lparr>Errors := absorbed (Errors b) new\<rparr>))"
proof -
  from assms(1) obtain sb where sb: "load (subBuilders h) f = Inr sb"
    by (auto simp: AddField_def andThen_eq_Inr dest: FinalizeSub_Inr)
  let ?b1 = "b\<lparr>Errors := absorbed (Errors b) (errorList (SubErrors sb))\<rparr>"
  have held: "builderAt (afterAbsorb f e h) e = Inr ?b1"
    by (rule afterAbsorb_facts(1) [OF assms(2) sb])
  have "AddRawField (Fragment sb) e (afterAbsorb f e h) = Inr (e', h')"
    using assms(1) unfolding AddField_def absorb_then [OF assms(2) sb] .
  from grows_AddRawField [OF this held] show ?thesis
    by (auto simp: absorbed_append)
qed

lemma grows_addEachField:
  assumes "addEachField fs e h = Inr h'" and "builderAt h e = Inr b"
  shows "\<exists>new. builderAt h' e = Inr (b\<lparr>Errors := absorbed (Errors b) new\<rparr>)"
  using assms
proof (induction fs arbitrary: h b)
  case Nil
  then show ?case by (auto intro!: exI [of _ "[]"])
next
  case (Cons f fs)
  from Cons.prems(1) obtain e1 h1 where
    step: "AddField f e h = Inr (e1, h1)" and rest: "addEachField fs e h1 = Inr h'"
    by (auto simp: andThen_eq_Inr)
  from grows_AddField [OF step Cons.prems(2)] obtain new where
    held: "builderAt h1 e = Inr (b\<lparr>Errors := absorbed (Errors b) new\<rparr>)"
    by blast
  from Cons.IH [OF rest held] show ?case
    by (auto simp: absorbed_append)
qed

lemma grows_addEachRawField:
  assumes "addEachRawField fs e h = Inr h'" and "builderAt h e = Inr b"
  shows "\<exists>new. builderAt h' e = Inr (b\<lparr>Errors := absorbed (Errors b) new\<rparr>)"
  using assms
proof (induction fs arbitrary: h b)
  case Nil
  then show ?case by (auto intro!: exI [of _ "[]"])
next
  case (Cons f fs)
  from Cons.prems(1) obtain e1 h1 where
    step: "AddRawField f e h = Inr (e1, h1)" and rest: "addEachRawField fs e h1 = Inr h'"
    by (auto simp: andThen_eq_Inr)
  from grows_AddRawField [OF step Cons.prems(2)] obtain new where
    held: "builderAt h1 e = Inr (b\<lparr>Errors := absorbed (Errors b) new\<rparr>)"
    by blast
  from Cons.IH [OF rest held] show ?case
    by (auto simp: absorbed_append)
qed

lemma call_grows:
  assumes "call vt c e h = Inr (e', h')" and "builderAt h e = Inr b"
  shows "e' = e \<and> (\<exists>new. builderAt h' e = Inr (b\<lparr>Errors := absorbed (Errors b) new\<rparr>))"
proof (cases c)
  case (CallSetTitle s)
  with assms show ?thesis by (auto simp: SetTitle_def dest: grows_guarded)
next
  case (CallSetDescription s)
  with assms show ?thesis by (auto simp: SetDescription_def dest: grows_guarded)
next
  case (CallSetURL s)
  with assms show ?thesis by (auto simp: SetURL_def dest: grows_assign)
next
  case (CallSetColor n)
  with assms show ?thesis by (auto simp: SetColor_def dest: grows_guarded)
next
  case (CallSetCurrentTimestamp t)
  with assms show ?thesis
    by (auto simp: SetCurrentTimestamp_def setRawTimestamp_def dest: grows_assign)
next
  case (CallSetCustomTimestamp t)
  with assms show ?thesis
    by (auto simp: SetCustomTimestamp_def setRawTimestamp_def dest: grows_assign)
next
  case CallInlineAllFields
  with assms show ?thesis by (auto simp: InlineAllFields_def dest: grows_inline)
next
  case CallOutlineAllFields
  with assms show ?thesis by (auto simp: OutlineAllFields_def dest: grows_inline)
next
  case (CallAddFields fs)
  with assms show ?thesis
    by (auto simp: AddFields_def returning_eq_Inr dest: grows_addEachField)
next
  case (CallAddRawFields fs)
  with assms show ?thesis
    by (auto simp: AddRawFields_def returning_eq_Inr dest: grows_addEachRawField)
next
  case (CallAddField f)
  with assms show ?thesis by (auto dest: grows_AddField)
next
  case (CallAddRawField f)
  with assms show ?thesis by (auto dest: grows_AddRawField)
next
  case (CallSetAuthor p)
  with assms grows_absorb [of p h e "\<lambda>res r. r\<lparr>Author := res\<rparr>" e' h' b] show ?thesis
    by (simp add: SetAuthor_def SetRawAuthor_def)
next
  case (CallSetRawAuthor p)
  with assms show ?thesis by (auto simp: SetRawAuthor_def dest: grows_assign)
next
  case (CallSetThumbnail p)
  with assms grows_absorb [of p h e "\<lambda>res r. r\<lparr>Thumbnail := res\<rparr>" e' h' b] show ?thesis
    by (simp add: SetThumbnail_def SetRawThumbnail_def)
next
  case (CallSetRawThumbnail p)
  with assms show ?thesis by (auto simp: SetRawThumbnail_def dest: grows_assign)
next
  case (CallSetProvider p)
  with assms(1) have "SetProvider p e h = Inr (e', h')"
    by simp
  then have "andThen (FinalizeSub p h) (\<lambda>((res, errs), h1).
      andThen (addAllRawErrors errs e h1) (\<lambda>h2.
      returning e (assign (\<lambda>r. r\<lparr>Provider := res\<rparr>) e h2))) = Inr (e', h')"
    unfolding SetProvider_def SetRawProvider_def provider_check .
  then show ?thesis
    by (rule grows_absorb [where f = "\<lambda>res r. r\<lparr>Provider := res\<rparr>", OF _ assms(2)])
next
  case (CallSetRawProvider p)
  with assms show ?thesis by (auto simp: SetRawProvider_def dest: grows_assign)
next
  case (CallSetFooter p)
  with assms grows_absorb [of p h e "\<lambda>res r. r\<lparr>Footer := res\<rparr>" e' h' b] show ?thesis
    by (simp add: SetFooter_def SetRawFooter_def)
next
  case (CallSetRawFooter p)
  with assms show ?thesis by (auto simp: SetRawFooter_def dest: grows_assign)
next
  case (CallSetVideo p)
  with assms grows_absorb [of p h e "\<lambda>res r. r\<lparr>Video := res\<rparr>" e' h' b] show ?thesis
    by (simp add: SetVideo_def SetRawVideo_def)
next
  case (CallSetRawVideo p)
  with assms show ?thesis by (auto simp: SetRawVideo_def dest: grows_assign)
next
  case (CallSetImage p)
  with assms grows_absorb [of p h e "\<lambda>res r. r\<lparr>Image := res\<rparr>" e' h' b] show ?thesis
    by (simp add: SetImage_def SetRawImage_def)
next
  case (CallSetRawImage p)
  with assms show ?thesis by (auto simp: SetRawImage_def dest: grows_assign)
next
  case (CallSetType s)
  with assms show ?thesis by (auto simp: SetType_def dest: grows_guarded)
qed

lemma chain_grows:
  assumes "chain vt cs e h = Inr (e', h')" and "builderAt h e = Inr b"
  shows "e' = e \<and> (\<exists>new. builderAt h' e = Inr (b\<lparr>Errors := absorbed (Errors b) new\<rparr>))"
  using assms
proof (induction cs arbitrary: h b)
  case Nil
  then show ?case by (auto intro!: exI [of _ "[]"])
next
  case (Cons c cs)
  from Cons.prems(1) obtain e1 h1 where
    step: "call vt c e h = Inr (e1, h1)" and rest: "chain vt cs e1 h1 = Inr (e', h')"
    by (auto simp: andThen_eq_Inr)
  from call_grows [OF step Cons.prems(2)] obtain new where
    e1: "e1 = e" and held: "builderAt h1 e = Inr (b\<lparr>Errors := absorbed (Errors b) new\<rparr>)"
    by blast
  from Cons.IH [OF rest [unfolded e1] held] show ?case
    by (auto simp: absorbed_append)
qed

section \<open>Setters return their receiver\<close>

lemma call_returns: "call vt c e h = Inr (e', h') \<Longrightarrow> e' = e"
  by (cases c)
     (auto simp: SetTitle_def SetDescription_def SetURL_def SetColor_def SetCurrentTimestamp_def
        SetCustomTimestamp_def setRawTimestamp_def InlineAllFields_def OutlineAllFields_def
        AddFields_def AddRawFields_def AddField_def AddRawField_def SetAuthor_def SetRawAuthor_def
        SetThumbnail_def SetRawThumbnail_def SetProvider_def SetRawProvider_def SetFooter_def
        SetRawFooter_def SetVideo_def SetRawVideo_def SetImage_def SetRawImage_def SetType_def
        returning_eq_Inr andThen_eq_Inr)

lemma wellFormed_iff:
  "wellFormed h e \<longleftrightarrow>
     (\<exists>b r. builderAt h e = Inr b \<and> rawAt h e = Inr r \<and> (\<forall>f\<in>set (Fields r). live (rawFields h) f))"
  by (cases "load (embedBuilders h) e")
     (auto simp: wellFormed_def rawAt_def builderAt_def list_all_iff split: sum.splits)

lemma sameShape_refl [simp]: "sameShape h h"
  by (simp add: sameShape_def)

lemma sameShape_trans: "sameShape h h1 \<Longrightarrow> sameShape h1 h2 \<Longrightarrow> sameShape h h2"
  by (simp add: sameShape_def)

lemma sameShape_live:
  assumes "sameShape h h'"
  shows "live (rawFields h') p = live (rawFields h) p"
    and "live (subBuilders h') p = live (subBuilders h) p"
    and "fragmentOf h' p = fragmentOf h p"
    and "fieldBuilderOk h' p = fieldBuilderOk h p"
proof -
  have len: "length (rawFields h') = length (rawFields h)"
    and frags: "map Fragment (subBuilders h') = map Fragment (subBuilders h)"
    using assms by (simp_all add: sameShape_def)
  from frags have len': "length (subBuilders h') = length (subBuilders h)"
    by (rule map_eq_imp_length_eq)
  show 1: "live (rawFields h') p = live (rawFields h) p"
    by (rule live_same_length [OF len])
  show 2: "live (subBuilders h') p = live (subBuilders h) p"
    by (rule live_same_length [OF len'])
  have nth: "a < length (subBuilders h) \<Longrightarrow> Fragment (subBuilders h' ! a) = Fragment (subBuilders h ! a)" for a
    using frags len' by (metis nth_map)
  show 3: "fragmentOf h' p = fragmentOf h p"
    using len' nth by (cases p) (simp_all add: fragmentOf_def load_def)
  show "fieldBuilderOk h' p = fieldBuilderOk h p"
    by (simp add: fieldBuilderOk_def 2 3 live_same_length [OF len])
qed

lemma sameShape_argumentsOk: "sameShape h h' \<Longrightarrow> argumentsOk h' c = argumentsOk h c"
  by (cases c) (simp_all add: sameShape_live list_all_iff)

lemma ok_assign:
  assumes "wellFormed h e"
    and "\<And>r. \<forall>p\<in>set (Fields (f r)). p \<in> set (Fields r) \<or> live (rawFields h) p"
  shows "\<exists>h'. returning e (assign f e h) = Inr (e, h') \<and> wellFormed h' e \<and> sameShape h h'"
proof -
  from assms(1) obtain b r where b: "builderAt h e = Inr b" and r: "rawAt h e = Inr r"
    and fields: "\<forall>p\<in>set (Fields r). live (rawFields h) p"
    by (auto simp: wellFormed_iff)
  let ?h' = "h\<lparr>rawEmbeds := (rawEmbeds h)[the (Embed b) := f r]\<rparr>"
  have "returning e (assign f e h) = Inr (e, ?h')"
    by (simp add: returning_def assign_loaded [OF b r])
  moreover have "rawAt ?h' e = Inr (f r)"
    by (rule rawAt_assigned [OF b r])
  then have "wellFormed ?h' e"
    using assms(2) [of r] fields by (auto simp: wellFormed_def list_all_iff)
  moreover have "sameShape h ?h'"
    by (simp add: sameShape_def)
  ultimately show ?thesis by blast
qed

lemma ok_addError:
  assumes "wellFormed h e"
  shows "\<exists>h'. returning e (addError t vs e h) = Inr (e, h') \<and> wellFormed h' e \<and> sameShape h h'"
proof -
  from assms obtain b where b: "builderAt h e = Inr b"
    by (auto simp: wellFormed_iff)
  let ?h' = "h\<lparr>embedBuilders :=
      (embedBuilders h)[the e := b\<lparr>Errors := Some (errorList (Errors b) @ [Errorf t vs])\<rparr>]\<rparr>"
  have "returning e (addError t vs e h) = Inr (e, ?h')"
    by (simp add: returning_def addError_def addRawError_loaded [OF b])
  moreover have "wellFormed ?h' e"
    using assms by (simp add: wellFormed_def rawAt_errors_update [OF b] split: sum.splits)
  moreover have "sameShape h ?h'"
    by (simp add: sameShape_def)
  ultimately show ?thesis by blast
qed

lemma ok_guarded:
  assumes "wellFormed h e" and "\<And>r. Fields (f r) = Fields r"
  shows "\<exists>h'. returning e (if ok then assign f e h else addError t vs e h) = Inr (e, h') \<and>
           wellFormed h' e \<and> sameShape h h'"
  using ok_assign [OF assms(1), of f] ok_addError [OF assms(1), of t vs] assms(2)
  by (cases ok) simp_all

lemma ok_afterAbsorb:
  assumes "wellFormed h e" and "live (subBuilders h) p"
  shows "wellFormed (afterAbsorb p e h) e \<and> sameShape h (afterAbsorb p e h)"
proof -
  from assms(1) obtain b where b: "builderAt h e = Inr b"
    by (auto simp: wellFormed_iff)
  from assms(2) obtain sb where sb: "load (subBuilders h) p = Inr sb"
    by (auto simp: live_load)
  have "wellFormed (afterAbsorb p e h) e"
    using assms(1) afterAbsorb_facts(2,4) [OF b sb] by (simp add: wellFormed_def split: sum.splits)
  moreover have "map Fragment (subBuilders (afterAbsorb p e h)) = map Fragment (subBuilders h)"
    using sb
    by (auto simp: afterAbsorb_def updated_def modify_def load_eq_Inr map_update
        list_update_same_conv)
  then have "sameShape h (afterAbsorb p e h)"
    using afterAbsorb_facts(4) [OF b sb] by (simp add: sameShape_def)
  ultimately show ?thesis by blast
qed

lemma ok_absorb:
  assumes "wellFormed h e" and "live (subBuilders h) p" and "\<And>res r. Fields (f res r) = Fields r"
  shows "\<exists>h'. andThen (FinalizeSub p h) (\<lambda>((res, errs), h1).
               andThen (addAllRawErrors errs e h1) (\<lambda>h2. returning e (assign (f res) e h2)))
             = Inr (e, h') \<and> wellFormed h' e \<and> sameShape h h'"
proof -
  from assms(1) obtain b where b: "builderAt h e = Inr b"
    by (auto simp: wellFormed_iff)
  from assms(2) obtain sb where sb: "load (subBuilders h) p = Inr sb"
    by (auto simp: live_load)
  from ok_afterAbsorb [OF assms(1,2)] have wf: "wellFormed (afterAbsorb p e h) e"
    and shape: "sameShape h (afterAbsorb p e h)"
    by simp_all
  from ok_assign [OF wf, of "f (Fragment sb)"] assms(3) obtain h' where
    "returning e (assign (f (Fragment sb)) e (afterAbsorb p e h)) = Inr (e, h')"
    "wellFormed h' e" "sameShape (afterAbsorb p e h) h'"
    by auto
  then show ?thesis
    unfolding absorb_then [OF b sb] using shape by (blast intro: sameShape_trans)
qed

lemma ok_inline:
  assumes "wellFormed h e"
  shows "\<exists>h'. returning e (andThen (rawAt h e) (\<lambda>r.
               andThen (setInlineEach v (Fields r) (rawFields h)) (\<lambda>m. Inr (h\<lparr>rawFields := m\<rparr>))))
             = Inr (e, h') \<and> wellFormed h' e \<and> sameShape h h'"
proof -
  from assms obtain r where r: "rawAt h e = Inr r"
    and fields: "\<forall>p\<in>set (Fields r). live (rawFields h) p"
    by (auto simp: wellFormed_iff)
  from setInlineEach_effect [OF fields, of v] obtain m where
    m: "setInlineEach v (Fields r) (rawFields h) = Inr m" and len: "length m = length (rawFields h)"
    by blast
  let ?h' = "h\<lparr>rawFields := m\<rparr>"
  have "returning e (andThen (rawAt h e) (\<lambda>r.
               andThen (setInlineEach v (Fields r) (rawFields h)) (\<lambda>m. Inr (h\<lparr>rawFields := m\<rparr>))))
        = Inr (e, ?h')"
    by (simp add: r m returning_def)
  moreover have "rawAt ?h' e = Inr r"
    using r by (simp add: rawAt_def)
  then have "wellFormed ?h' e"
    using fields by (simp add: wellFormed_def list_all_iff live_same_length [OF len])
  moreover have "sameShape h ?h'"
    by (simp add: sameShape_def len)
  ultimately show ?thesis by blast
qed

lemma ok_AddRawField:
  assumes "wellFormed h e" and "live (rawFields h) f"
  shows "\<exists>h'. AddRawField f e h = Inr (e, h') \<and> wellFormed h' e \<and> sameShape h h'"
proof -
  from assms(1) obtain r where r: "rawAt h e = Inr r"
    by (auto simp: wellFormed_iff)
  from assms(2) obtain x where x: "load (rawFields h) f = Inr x"
    by (auto simp: live_load)
  show ?thesis
  proof (cases "int (length (Fields r)) < maxFieldCount")
    case True
    then have "AddRawField f e h = returning e (assign (\<lambda>r. r\<lparr>Fields := Fields r @ [f]\<rparr>) e h)"
      by (simp add: AddRawField_def r)
    then show ?thesis
      using ok_assign [OF assms(1), of "\<lambda>r. r\<lparr>Fields := Fields r @ [f]\<rparr>"] assms(2) by simp
  next
    case False
    then have "AddRawField f e h =
        returning e (addError fieldLimitReachedErrTemplateString [StrArg (Name x), IntArg maxFieldCount] e h)"
      by (simp add: AddRawField_def r x)
    then show ?thesis
      using ok_addError [OF assms(1)] by simp
  qed
qed

lemma ok_AddField:
  assumes "wellFormed h e" and "fieldBuilderOk h f"
  shows "\<exists>h'. AddField f e h = Inr (e, h') \<and> wellFormed h' e \<and> sameShape h h'"
proof -
  from assms(1) obtain b where b: "builderAt h e = Inr b"
    by (auto simp: wellFormed_iff)
  from assms(2) obtain sb where sb: "load (subBuilders h) f = Inr sb"
    and frag: "live (rawFields h) (Fragment sb)"
    by (auto simp: fieldBuilderOk_iff live_load)
  have sub: "live (subBuilders h) f"
    using sb by (auto simp: live_load)
  from ok_afterAbsorb [OF assms(1) sub] have wf: "wellFormed (afterAbsorb f e h) e"
    and shape: "sameShape h (afterAbsorb f e h)"
    by simp_all
  have "live (rawFields (afterAbsorb f e h)) (Fragment sb)"
    using frag by (simp add: sameShape_live(1) [OF shape])
  from ok_AddRawField [OF wf this] obtain h' where
    "AddRawField (Fragment sb) e (afterAbsorb f e h) = Inr (e, h')"
    "wellFormed h' e" "sameShape (afterAbsorb f e h) h'"
    by blast
  then show ?thesis
    unfolding AddField_def absorb_then [OF b sb] using shape by (blast intro: sameShape_trans)
qed

lemma ok_addEachField:
  assumes "wellFormed h e" and "\<forall>f\<in>set fs. fieldBuilderOk h f"
  shows "\<exists>h'. addEachField fs e h = Inr h' \<and> wellFormed h' e \<and> sameShape h h'"
  using assms
proof (induction fs arbitrary: h)
  case Nil
  then show ?case by simp
next
  case (Cons f fs)
  from ok_AddField [OF Cons.prems(1), of f] Cons.prems(2) obtain h1 where
    step: "AddField f e h = Inr (e, h1)" and wf: "wellFormed h1 e" and shape: "sameShape h h1"
    by auto
  have "\<forall>f\<in>set fs. fieldBuilderOk h1 f"
    using Cons.prems(2) by (simp add: sameShape_live(4) [OF shape])
  from Cons.IH [OF wf this] obtain h' where
    "addEachField fs e h1 = Inr h'" "wellFormed h' e" "sameShape h1 h'"
    by blast
  then show ?case
    using step shape by (auto intro: sameShape_trans)
qed

lemma ok_addEachRawField:
  assumes "wellFormed h e" and "\<forall>f\<in>set fs. live (rawFields h) f"
  shows "\<exists>h'. addEachRawField fs e h = Inr h' \<and> wellFormed h' e \<and> sameShape h h'"
  using assms
proof (induction fs arbitrary: h)
  case Nil
  then show ?case by simp
next
  case (Cons f fs)
  from ok_AddRawField [OF Cons.prems(1), of f] Cons.prems(2) obtain h1 where
    step: "AddRawField f e h = Inr (e, h1)" and wf: "wellFormed h1 e" and shape: "sameShape h h1"
    by auto
  have "\<forall>f\<in>set fs. live (rawFields h1) f"
    using Cons.prems(2) by (simp add: sameShape_live(1) [OF shape])
  from Cons.IH [OF wf this] obtain h' where
    "addEachRawField fs e h1 = Inr h'" "wellFormed h' e" "sameShape h1 h'"
    by blast
  then show ?case
    using step shape by (auto intro: sameShape_trans)
qed

lemma call_ok:
  assumes "wellFormed h e" and "argumentsOk h c"
  shows "\<exists>h'. call vt c e h = Inr (e, h') \<and> wellFormed h' e \<and> sameShape h h'"
proof (cases c)
  case (CallSetTitle s)
  then show ?thesis
    using ok_guarded [OF assms(1), of "\<lambda>r. r\<lparr>Title := s\<rparr>"] by (simp add: SetTitle_def)
next
  case (CallSetDescription s)
  then show ?thesis
    using ok_guarded [OF assms(1), of "\<lambda>r. r\<lparr>Description := s\<rparr>"] by (simp add: SetDescription_def)
next
  case (CallSetURL s)
  then show ?thesis
    using ok_assign [OF assms(1), of "\<lambda>r. r\<lparr>URL := s\<rparr>"] by (simp add: SetURL_def)
next
  case (CallSetColor n)
  then show ?thesis
    using ok_guarded [OF assms(1), of "\<lambda>r. r\<lparr>Color := n\<rparr>"] by (simp add: SetColor_def)
next
  case (CallSetCurrentTimestamp t)
  then show ?thesis
    using ok_assign [OF assms(1), of "\<lambda>r. r\<lparr>Timestamp := UTC t\<rparr>"]
    by (simp add: SetCurrentTimestamp_def setRawTimestamp_def)
next
  case (CallSetCustomTimestamp t)
  then show ?thesis
    using ok_assign [OF assms(1), of "\<lambda>r. r\<lparr>Timestamp := UTC t\<rparr>"]
    by (simp add: SetCustomTimestamp_def setRawTimestamp_def)
next
  case CallInlineAllFields
  then show ?thesis
    using ok_inline [OF assms(1), of True] by (simp add: InlineAllFields_def)
next
  case CallOutlineAllFields
  then show ?thesis
    using ok_inline [OF assms(1), of False] by (simp add: OutlineAllFields_def)
next
  case (CallAddFields fs)
  then show ?thesis
    using ok_addEachField [OF assms(1), of fs] assms(2)
    by (auto simp: AddFields_def returning_def list_all_iff)
next
  case (CallAddRawFields fs)
  then show ?thesis
    using ok_addEachRawField [OF assms(1), of fs] assms(2)
    by (auto simp: AddRawFields_def returning_def list_all_iff)
next
  case (CallAddField f)
  then show ?thesis
    using ok_AddField [OF assms(1), of f] assms(2) by simp
next
  case (CallAddRawField f)
  then show ?thesis
    using ok_AddRawField [OF assms(1), of f] assms(2) by simp
next
  case (CallSetAuthor p)
  then show ?thesis
    using ok_absorb [OF assms(1), of p "\<lambda>res r. r\<lparr>Author := res\<rparr>"] assms(2)
    by (simp add: SetAuthor_def SetRawAuthor_def)
next
  case (CallSetRawAuthor p)
  then show ?thesis
    using ok_assign [OF assms(1), of "\<lambda>r. r\<lparr>Author := p\<rparr>"] by (simp add: SetRawAuthor_def)
next
  case (CallSetThumbnail p)
  then show ?thesis
    using ok_absorb [OF assms(1), of p "\<lambda>res r. r\<lparr>Thumbnail := res\<rparr>"] assms(2)
    by (simp add: SetThumbnail_def SetRawThumbnail_def)
next
  case (CallSetRawThumbnail p)
  then show ?thesis
    using ok_assign [OF assms(1), of "\<lambda>r. r\<lparr>Thumbnail := p\<rparr>"] by (simp add: SetRawThumbnail_def)
next
  case (CallSetProvider p)
  have "SetProvider p e h = andThen (FinalizeSub p h) (\<lambda>((res, errs), h1).
      andThen (addAllRawErrors errs e h1) (\<lambda>h2.
      returning e (assign (\<lambda>r. r\<lparr>Provider := res\<rparr>) e h2)))"
    unfolding SetProvider_def SetRawProvider_def provider_check ..
  with CallSetProvider show ?thesis
    using ok_absorb [OF assms(1), of p "\<lambda>res r. r\<lparr>Provider := res\<rparr>"] assms(2)
    by simp
next
  case (CallSetRawProvider p)
  then show ?thesis
    using ok_assign [OF assms(1), of "\<lambda>r. r\<lparr>Provider := p\<rparr>"] by (simp add: SetRawProvider_def)
next
  case (CallSetFooter p)
  then show ?thesis
    using ok_absorb [OF assms(1), of p "\<lambda>res r. r\<lparr>Footer := res\<rparr>"] assms(2)
    by (simp add: SetFooter_def SetRawFooter_def)
next
  case (CallSetRawFooter p)
  then show ?thesis
    using ok_assign [OF assms(1), of "\<lambda>r. r\<lparr>Footer := p\<rparr>"] by (simp add: SetRawFooter_def)
next
  case (CallSetVideo p)
  then show ?thesis
    using ok_absorb [OF assms(1), of p "\<lambda>res r. r\<lparr>Video := res\<rparr>"] assms(2)
    by (simp add: SetVideo_def SetRawVideo_def)
next
  case (CallSetRawVideo p)
  then show ?thesis
    using ok_assign [OF assms(1), of "\<lambda>r. r\<lparr>Video := p\<rparr>"] by (simp add: SetRawVideo_def)
next
  case (CallSetImage p)
  then show ?thesis
    using ok_absorb [OF assms(1), of p "\<lambda>res r. r\<lparr>Image := res\<rparr>"] assms(2)
    by (simp add: SetImage_def SetRawImage_def)
next
  case (CallSetRawImage p)
  then show ?thesis
    using ok_assign [OF assms(1), of "\<lambda>r. r\<lparr>Image := p\<rparr>"] by (simp add: SetRawImage_def)
next
  case (CallSetType s)
  then show ?thesis
    using ok_guarded [OF assms(1), of "\<lambda>r. r\<lparr>Type := s\<rparr>"] by (simp add: SetType_def)
qed

lemma full_wellFormed: "wellFormed full (Some 0)"
  by (simp add: wellFormed_def full_def rawAt_def load_def live_def list_all_iff)

lemma full_reachable:
  "chain [] (replicate 25 (CallAddRawField (Some 0))) (Some 0)
     (snd (NewEmbed (emptyHeap\<lparr>rawFields := rawFields full, subBuilders := subBuilders full\<rparr>)))
   = Inr (Some 0, full)"
  by (simp add: eval_nat_numeral NewEmbed_def emptyHeap_def full_def AddRawField_def returning_def
      rawAt_def assign_def load_def modify_def maxFieldCount_def zeroEmbed_def)

lemma leaves_trans:
  assumes "leaves h e b n1 r1 h1"
    and "leaves h1 e (b\<lparr>Errors := absorbed (Errors b) n1\<rparr>) n2 r2 h2"
  shows "leaves h e b (n1 @ n2) r2 h2"
  using assms by (auto simp: leaves_def absorbed_append intro: sameShape_trans)

lemma eff_assign:
  assumes "wellFormed h e" and "builderAt h e = Inr b" and "rawAt h e = Inr r"
    and "\<forall>p\<in>set (Fields (f r)). p \<in> set (Fields r) \<or> live (rawFields h) p"
  shows "\<exists>h'. returning e (assign f e h) = Inr (e, h') \<and> leaves h e b [] (f r) h' \<and>
           rawFields h' = rawFields h \<and> subBuilders h' = subBuilders h"
proof -
  from assms(1,3) have fields: "\<forall>p\<in>set (Fields r). live (rawFields h) p"
    by (simp add: wellFormed_def list_all_iff)
  let ?h' = "h\<lparr>rawEmbeds := (rawEmbeds h)[the (Embed b) := f r]\<rparr>"
  have "returning e (assign f e h) = Inr (e, ?h')"
    by (simp add: returning_def assign_loaded [OF assms(2,3)])
  moreover have raw: "rawAt ?h' e = Inr (f r)"
    by (rule rawAt_assigned [OF assms(2,3)])
  then have "wellFormed ?h' e"
    using assms(4) fields by (auto simp: wellFormed_def list_all_iff)
  moreover have "sameShape h ?h'"
    by (simp add: sameShape_def)
  moreover have "builderAt ?h' e = Inr b"
    using assms(2) by (simp add: builderAt_def)
  ultimately show ?thesis
    using raw by (auto simp: leaves_def)
qed

lemma eff_addError:
  assumes "wellFormed h e" and "builderAt h e = Inr b" and "rawAt h e = Inr r"
  shows "\<exists>h'. returning e (addError t vs e h) = Inr (e, h') \<and> leaves h e b [Errorf t vs] r h' \<and>
           rawFields h' = rawFields h \<and> subBuilders h' = subBuilders h"
proof -
  let ?b' = "b\<lparr>Errors := Some (errorList (Errors b) @ [Errorf t vs])\<rparr>"
  let ?h' = "h\<lparr>embedBuilders := (embedBuilders h)[the e := ?b']\<rparr>"
  have "returning e (addError t vs e h) = Inr (e, ?h')"
    by (simp add: returning_def addError_def addRawError_loaded [OF assms(2)])
  moreover have raw: "rawAt ?h' e = Inr r"
    using assms(3) by (simp add: rawAt_errors_update [OF assms(2)])
  moreover have "wellFormed ?h' e"
    using assms(1) by (simp add: wellFormed_def rawAt_errors_update [OF assms(2)] split: sum.splits)
  moreover have "sameShape h ?h'"
    by (simp add: sameShape_def)
  moreover have "builderAt ?h' e = Inr ?b'"
    using assms(2) by (rule builderAt_update)
  ultimately show ?thesis
    by (auto simp: leaves_def absorbed_def)
qed

lemma eff_guarded:
  assumes "wellFormed h e" and "builderAt h e = Inr b" and "rawAt h e = Inr r"
    and "Fields (f r) = Fields r"
  shows "\<exists>h'. returning e (if ok then assign f e h else addError t vs e h) = Inr (e, h') \<and>
           leaves h e b (if ok then [] else [Errorf t vs]) (if ok then f r else r) h' \<and>
           rawFields h' = rawFields h \<and> subBuilders h' = subBuilders h"
  using eff_assign [OF assms(1-3), of f] eff_addError [OF assms(1-3), of t vs] assms(4)
  by (cases ok) simp_all

lemma afterAbsorb_leaves:
  assumes "wellFormed h e" and "builderAt h e = Inr b" and "rawAt h e = Inr r"
    and "load (subBuilders h) p = Inr sb"
  shows "leaves h e b (errorList (SubErrors sb)) r (afterAbsorb p e h)"
proof -
  have "live (subBuilders h) p"
    using assms(4) by (auto simp: live_load)
  from ok_afterAbsorb [OF assms(1) this] show ?thesis
    using afterAbsorb_facts(1,2) [OF assms(2,4)] assms(3) by (simp add: leaves_def)
qed

lemma eff_absorb:
  assumes "wellFormed h e" and "builderAt h e = Inr b" and "rawAt h e = Inr r"
    and "load (subBuilders h) p = Inr sb" and "\<And>res r. Fields (f res r) = Fields r"
  shows "\<exists>h'. andThen (FinalizeSub p h) (\<lambda>((res, errs), h1).
               andThen (addAllRawErrors errs e h1) (\<lambda>h2. returning e (assign (f res) e h2)))
             = Inr (e, h') \<and>
           leaves h e b (errorList (SubErrors sb)) (f (Fragment sb) r) h' \<and>
           rawFields h' = rawFields h \<and>
           load (subBuilders h') p = Inr (sb\<lparr>SubErrors := None\<rparr>)"
proof -
  let ?h1 = "afterAbsorb p e h"
  let ?b1 = "b\<lparr>Errors := absorbed (Errors b) (errorList (SubErrors sb))\<rparr>"
  have first: "leaves h e b (errorList (SubErrors sb)) r ?h1"
    by (rule afterAbsorb_leaves [OF assms(1-4)])
  then have wf: "wellFormed ?h1 e" and held: "builderAt ?h1 e = Inr ?b1" and raw: "rawAt ?h1 e = Inr r"
    by (simp_all add: leaves_def)
  from eff_assign [OF wf held raw, of "f (Fragment sb)"] assms(5) obtain h' where
    run: "returning e (assign (f (Fragment sb)) e ?h1) = Inr (e, h')" and
    second: "leaves ?h1 e ?b1 [] (f (Fragment sb) r) h'" and
    frame: "rawFields h' = rawFields ?h1" "subBuilders h' = subBuilders ?h1"
    by auto
  from leaves_trans [OF first second] have "leaves h e b (errorList (SubErrors sb)) (f (Fragment sb) r) h'"
    by simp
  then show ?thesis
    using run frame afterAbsorb_facts(4,5) [OF assms(2,4)]
    unfolding absorb_then [OF assms(2,4)] by auto
qed

lemma eff_inline:
  assumes "wellFormed h e" and "builderAt h e = Inr b" and "rawAt h e = Inr r"
  shows "\<exists>h'. returning e (andThen (rawAt h e) (\<lambda>r.
               andThen (setInlineEach v (Fields r) (rawFields h)) (\<lambda>m. Inr (h\<lparr>rawFields := m\<rparr>))))
             = Inr (e, h') \<and> leaves h e b [] r h'"
proof -
  from assms(1,3) have fields: "\<forall>p\<in>set (Fields r). live (rawFields h) p"
    by (simp add: wellFormed_def list_all_iff)
  from setInlineEach_effect [OF fields, of v] obtain m where
    m: "setInlineEach v (Fields r) (rawFields h) = Inr m" and len: "length m = length (rawFields h)"
    by blast
  let ?h' = "h\<lparr>rawFields := m\<rparr>"
  have "returning e (andThen (rawAt h e) (\<lambda>r.
               andThen (setInlineEach v (Fields r) (rawFields h)) (\<lambda>m. Inr (h\<lparr>rawFields := m\<rparr>))))
        = Inr (e, ?h')"
    by (simp add: assms(3) m returning_def)
  moreover have raw: "rawAt ?h' e = Inr r"
    using assms(3) by (simp add: rawAt_def)
  then have "wellFormed ?h' e"
    using fields by (simp add: wellFormed_def list_all_iff live_same_length [OF len])
  moreover have "sameShape h ?h'"
    by (simp add: sameShape_def len)
  moreover have "builderAt ?h' e = Inr b"
    using assms(2) by (simp add: builderAt_def)
  ultimately show ?thesis
    using raw by (auto simp: leaves_def)
qed

lemma eff_AddRawField:
  assumes "wellFormed h e" and "builderAt h e = Inr b" and "rawAt h e = Inr r"
    and "live (rawFields h) f"
  shows "\<exists>h'. AddRawField f e h = Inr (e, h') \<and>
           leaves h e b (if length (Fields r) < 25 then [] else [limitError h f])
             (if length (Fields r) < 25 then r\<lparr>Fields := Fields r @ [f]\<rparr> else r) h' \<and>
           rawFields h' = rawFields h \<and> subBuilders h' = subBuilders h"
proof -
  from assms(4) obtain x where x: "load (rawFields h) f = Inr x"
    by (auto simp: live_load)
  show ?thesis
  proof (cases "length (Fields r) < 25")
    case True
    then have "AddRawField f e h = returning e (assign (\<lambda>r. r\<lparr>Fields := Fields r @ [f]\<rparr>) e h)"
      by (simp add: AddRawField_def assms(3) maxFieldCount_def)
    then show ?thesis
      using eff_assign [OF assms(1-3), of "\<lambda>r. r\<lparr>Fields := Fields r @ [f]\<rparr>"] assms(4) True
      by simp
  next
    case False
    then have "AddRawField f e h =
        returning e (addError fieldLimitReachedErrTemplateString [StrArg (Name x), IntArg 25] e h)"
      by (simp add: AddRawField_def assms(3) x maxFieldCount_def)
    moreover have "limitError h f = Errorf fieldLimitReachedErrTemplateString [StrArg (Name x), IntArg 25]"
      by (simp add: limitError_def x)
    ultimately show ?thesis
      using eff_addError [OF assms(1-3), of fieldLimitReachedErrTemplateString
          "[StrArg (Name x), IntArg 25]"] False
      by simp
  qed
qed

lemma eff_AddField:
  assumes "wellFormed h e" and "builderAt h e = Inr b" and "rawAt h e = Inr r"
    and "load (subBuilders h) f = Inr sb" and "live (rawFields h) (Fragment sb)"
  shows "\<exists>h'. AddField f e h = Inr (e, h') \<and>
           leaves h e b
             (errorList (SubErrors sb) @
              (if length (Fields r) < 25 then [] else [limitError h (Fragment sb)]))
             (if length (Fields r) < 25 then r\<lparr>Fields := Fields r @ [Fragment sb]\<rparr> else r) h' \<and>
           rawFields h' = rawFields h \<and>
           load (subBuilders h') f = Inr (sb\<lparr>SubErrors := None\<rparr>) \<and>
           (\<forall>q. q \<noteq> f \<longrightarrow> load (subBuilders h') q = load (subBuilders h) q)"
proof -
  let ?h1 = "afterAbsorb f e h"
  let ?b1 = "b\<lparr>Errors := absorbed (Errors b) (errorList (SubErrors sb))\<rparr>"
  have first: "leaves h e b (errorList (SubErrors sb)) r ?h1"
    by (rule afterAbsorb_leaves [OF assms(1-4)])
  then have wf: "wellFormed ?h1 e" and held: "builderAt ?h1 e = Inr ?b1" and raw: "rawAt ?h1 e = Inr r"
    by (simp_all add: leaves_def)
  have fields: "rawFields ?h1 = rawFields h"
    by (rule afterAbsorb_facts(4) [OF assms(2,4)])
  then have frag: "live (rawFields ?h1) (Fragment sb)"
    using assms(5) by simp
  have lim: "limitError ?h1 (Fragment sb) = limitError h (Fragment sb)"
    by (simp add: limitError_def fields)
  from eff_AddRawField [OF wf held raw frag] obtain h' where
    run: "AddRawField (Fragment sb) e ?h1 = Inr (e, h')" and
    second: "leaves ?h1 e ?b1 (if length (Fields r) < 25 then [] else [limitError h (Fragment sb)])
               (if length (Fields r) < 25 then r\<lparr>Fields := Fields r @ [Fragment sb]\<rparr> else r) h'" and
    frame: "rawFields h' = rawFields ?h1" "subBuilders h' = subBuilders ?h1"
    unfolding lim by blast
  have "AddField f e h = Inr (e, h')"
    unfolding AddField_def absorb_then [OF assms(2,4)] by (rule run)
  then show ?thesis
    using leaves_trans [OF first second] frame fields afterAbsorb_facts(5,6) [OF assms(2,4)]
    by auto
qed

lemma leaves_refl:
  assumes "wellFormed h e" and "builderAt h e = Inr b" and "rawAt h e = Inr r"
  shows "leaves h e b [] r h"
  using assms by (simp add: leaves_def)

lemma eff_addEachRawField:
  assumes "wellFormed h e" and "builderAt h e = Inr b" and "rawAt h e = Inr r"
    and "\<forall>f\<in>set fs. live (rawFields h) f"
  shows "\<exists>h'. addEachRawField fs e h = Inr h' \<and>
           leaves h e b (map (limitError h) (drop (25 - length (Fields r)) fs))
             (r\<lparr>Fields := Fields r @ take (25 - length (Fields r)) fs\<rparr>) h' \<and>
           rawFields h' = rawFields h \<and> subBuilders h' = subBuilders h"
  using assms
proof (induction fs arbitrary: h b r)
  case Nil
  then show ?case by (simp add: leaves_refl)
next
  case (Cons f fs)
  let ?n1 = "if length (Fields r) < 25 then [] else [limitError h f]"
  let ?b1 = "b\<lparr>Errors := absorbed (Errors b) ?n1\<rparr>"
  let ?r1 = "if length (Fields r) < 25 then r\<lparr>Fields := Fields r @ [f]\<rparr> else r"
  from eff_AddRawField [OF Cons.prems(1-3), of f] Cons.prems(4) obtain h1 where
    step: "AddRawField f e h = Inr (e, h1)" and first: "leaves h e b ?n1 ?r1 h1" and
    fields: "rawFields h1 = rawFields h" and subs: "subBuilders h1 = subBuilders h"
    by auto
  from first have wf: "wellFormed h1 e" and held: "builderAt h1 e = Inr ?b1"
    and raw: "rawAt h1 e = Inr ?r1"
    by (simp_all add: leaves_def)
  have live1: "\<forall>f\<in>set fs. live (rawFields h1) f"
    using Cons.prems(4) fields by simp
  have lim: "limitError h1 = limitError h"
    by (rule ext) (simp add: limitError_def fields)
  from Cons.IH [OF wf held raw live1] obtain h' where
    rest: "addEachRawField fs e h1 = Inr h'" and
    second: "leaves h1 e ?b1 (map (limitError h) (drop (25 - length (Fields ?r1)) fs))
               (?r1\<lparr>Fields := Fields ?r1 @ take (25 - length (Fields ?r1)) fs\<rparr>) h'" and
    frame: "rawFields h' = rawFields h1" "subBuilders h' = subBuilders h1"
    unfolding lim by blast
  have run: "addEachRawField (f # fs) e h = Inr h'"
    using step rest by simp
  note both = leaves_trans [OF first second]
  show ?case
  proof (cases "length (Fields r) < 25")
    case True
    then have k: "25 - length (Fields r) = Suc (24 - length (Fields r))"
      by simp
    show ?thesis
      using run both frame fields subs True by (auto simp: k)
  next
    case False
    then have k: "25 - length (Fields r) = 0"
      by simp
    show ?thesis
      using run both frame fields subs False by (auto simp: k)
  qed
qed

lemma eff_addEachField:
  assumes "wellFormed h1 e" and "builderAt h1 e = Inr b" and "rawAt h1 e = Inr r"
    and "\<forall>f\<in>set fs. fieldBuilderOk h f"
    and "rawFields h1 = rawFields h"
    and "\<forall>q. fragmentOf h1 q = fragmentOf h q"
    and "\<forall>q. live (subBuilders h1) q = live (subBuilders h) q"
    and "\<forall>q. pendingErrors h1 q = (if q \<in> set seen then [] else pendingErrors h q)"
  shows "\<exists>h'. addEachField fs e h1 = Inr h' \<and>
           leaves h1 e b (fieldFailures h (length (Fields r)) seen fs)
             (r\<lparr>Fields := Fields r @ map (fragmentOf h) (take (25 - length (Fields r)) fs)\<rparr>) h' \<and>
           rawFields h' = rawFields h"
  using assms
proof (induction fs arbitrary: h1 b r seen)
  case Nil
  then show ?case by (simp add: leaves_refl)
next
  case (Cons f fs)
  have okf: "fieldBuilderOk h f"
    using Cons.prems(4) by simp
  then have "live (subBuilders h1) f"
    using Cons.prems(7) by (simp add: fieldBuilderOk_def)
  then obtain sb where sb: "load (subBuilders h1) f = Inr sb"
    by (auto simp: live_load)
  have fragf: "Fragment sb = fragmentOf h f"
    using Cons.prems(6) sb by (auto simp: fragmentOf_def dest: spec [of _ f])
  have pendf: "errorList (SubErrors sb) = (if f \<in> set seen then [] else pendingErrors h f)"
    using Cons.prems(8) sb by (auto simp: pendingErrors_def dest: spec [of _ f])
  have livef: "live (rawFields h1) (Fragment sb)"
    using okf by (simp add: fieldBuilderOk_def fragf Cons.prems(5))
  have lim: "limitError h1 p = limitError h p" for p
    by (simp add: limitError_def Cons.prems(5))
  let ?n1 = "errorList (SubErrors sb) @
              (if length (Fields r) < 25 then [] else [limitError h1 (Fragment sb)])"
  let ?b1 = "b\<lparr>Errors := absorbed (Errors b) ?n1\<rparr>"
  let ?r1 = "if length (Fields r) < 25 then r\<lparr>Fields := Fields r @ [Fragment sb]\<rparr> else r"
  from eff_AddField [OF Cons.prems(1-3) sb livef] obtain h2 where
    step: "AddField f e h1 = Inr (e, h2)" and first: "leaves h1 e b ?n1 ?r1 h2" and
    fields: "rawFields h2 = rawFields h1" and
    cleared: "load (subBuilders h2) f = Inr (sb\<lparr>SubErrors := None\<rparr>)" and
    others: "\<forall>q. q \<noteq> f \<longrightarrow> load (subBuilders h2) q = load (subBuilders h1) q"
    by blast
  from first have wf: "wellFormed h2 e" and held: "builderAt h2 e = Inr ?b1"
    and raw: "rawAt h2 e = Inr ?r1"
    by (simp_all add: leaves_def)
  have ok: "\<forall>f\<in>set fs. fieldBuilderOk h f"
    using Cons.prems(4) by simp
  have fields2: "rawFields h2 = rawFields h"
    using fields Cons.prems(5) by simp
  have frag2: "\<forall>q. fragmentOf h2 q = fragmentOf h q"
  proof
    fix q
    show "fragmentOf h2 q = fragmentOf h q"
    proof (cases "q = f")
      case True
      then show ?thesis using cleared fragf by (simp add: fragmentOf_def)
    next
      case False
      then have "fragmentOf h2 q = fragmentOf h1 q"
        using others by (simp add: fragmentOf_def)
      then show ?thesis using Cons.prems(6) by simp
    qed
  qed
  have live2: "\<forall>q. live (subBuilders h2) q = live (subBuilders h) q"
  proof
    fix q
    have "live (subBuilders h2) q = live (subBuilders h1) q"
      using cleared sb others by (cases "q = f") (auto simp: live_load)
    then show "live (subBuilders h2) q = live (subBuilders h) q"
      using Cons.prems(7) by simp
  qed
  have pend2: "\<forall>q. pendingErrors h2 q = (if q \<in> set (f # seen) then [] else pendingErrors h q)"
  proof
    fix q
    show "pendingErrors h2 q = (if q \<in> set (f # seen) then [] else pendingErrors h q)"
    proof (cases "q = f")
      case True
      then show ?thesis using cleared by (simp add: pendingErrors_def errorList_def)
    next
      case False
      then have "pendingErrors h2 q = pendingErrors h1 q"
        using others by (simp add: pendingErrors_def)
      then show ?thesis using Cons.prems(8) False by simp
    qed
  qed
  from Cons.IH [OF wf held raw ok fields2 frag2 live2 pend2] obtain h' where
    rest: "addEachField fs e h2 = Inr h'" and
    second: "leaves h2 e ?b1 (fieldFailures h (length (Fields ?r1)) (f # seen) fs)
               (?r1\<lparr>Fields := Fields ?r1 @ map (fragmentOf h) (take (25 - length (Fields ?r1)) fs)\<rparr>) h'" and
    frame: "rawFields h' = rawFields h"
    by blast
  have run: "addEachField (f # fs) e h1 = Inr h'"
    using step rest by simp
  note both = leaves_trans [OF first second]
  show ?case
  proof (cases "length (Fields r) < 25")
    case True
    then have k: "25 - length (Fields r) = Suc (24 - length (Fields r))"
      by simp
    show ?thesis
      using run both frame True by (auto simp: k pendf fragf)
  next
    case False
    then have k: "25 - length (Fields r) = 0"
      by simp
    show ?thesis
      using run both frame False by (auto simp: k pendf fragf lim)
  qed
qed

lemma fieldBuilderOk_loaded:
  assumes "fieldBuilderOk h f"
  obtains sb where "load (subBuilders h) f = Inr sb" and "live (rawFields h) (Fragment sb)"
    and "fragmentOf h f = Fragment sb" and "pendingErrors h f = errorList (SubErrors sb)"
proof -
  from assms obtain sb where sb: "load (subBuilders h) f = Inr sb"
    by (auto simp: fieldBuilderOk_def live_load)
  then have "fragmentOf h f = Fragment sb" "pendingErrors h f = errorList (SubErrors sb)"
    by (simp_all add: fragmentOf_def pendingErrors_def)
  moreover from this assms have "live (rawFields h) (Fragment sb)"
    by (simp add: fieldBuilderOk_def)
  ultimately show ?thesis
    using sb that by blast
qed

lemma subBuilder_loaded:
  assumes "live (subBuilders h) p"
  obtains sb where "load (subBuilders h) p = Inr sb"
    and "fragmentOf h p = Fragment sb" and "pendingErrors h p = errorList (SubErrors sb)"
proof -
  from assms obtain sb where sb: "load (subBuilders h) p = Inr sb"
    by (auto simp: live_load)
  then have "fragmentOf h p = Fragment sb" "pendingErrors h p = errorList (SubErrors sb)"
    by (simp_all add: fragmentOf_def pendingErrors_def)
  then show ?thesis
    using sb that by blast
qed

lemma call_effect:
  assumes "wellFormed h e" and "argumentsOk h c"
    and "builderAt h e = Inr b" and "rawAt h e = Inr r"
  shows "\<exists>h'. call vt c e h = Inr (e, h') \<and>
           leaves h e b (specFailures vt h (length (Fields r)) c) (specEmbed vt h r c) h' \<and>
           (c \<noteq> CallInlineAllFields \<and> c \<noteq> CallOutlineAllFields \<longrightarrow> rawFields h' = rawFields h)"
proof (cases c)
  case (CallSetTitle s)
  have check: "(int (length s) \<le> lowerCharLimit) = (length s \<le> 256)"
    by (simp add: lowerCharLimit_def)
  show ?thesis
    using eff_guarded [OF assms(1,3,4), of "\<lambda>r. r\<lparr>Title := s\<rparr>" "length s \<le> 256"
        characterCountExceedsLimitErrTemplateString
        "[StrArg ''embed title'', IntArg 256, IntArg (int (length s)), StrArg s]"]
    unfolding CallSetTitle call.simps SetTitle_def check
    by (cases "length s \<le> 256") (auto simp: lowerCharLimit_def)
next
  case (CallSetDescription s)
  have check: "(int (length s) \<le> upperCharLimit) = (length s \<le> 2048)"
    by (simp add: upperCharLimit_def)
  show ?thesis
    using eff_guarded [OF assms(1,3,4), of "\<lambda>r. r\<lparr>Description := s\<rparr>" "length s \<le> 2048"
        characterCountExceedsLimitLongErrTemplateString
        "[StrArg ''embed description'', IntArg 2048, IntArg (int (length s))]"]
    unfolding CallSetDescription call.simps SetDescription_def check
    by (cases "length s \<le> 2048") (auto simp: upperCharLimit_def)
next
  case (CallSetURL s)
  then show ?thesis
    using eff_assign [OF assms(1,3,4), of "\<lambda>r. r\<lparr>URL := s\<rparr>"] by (auto simp: SetURL_def)
next
  case (CallSetColor n)
  define ok where "ok = (0 \<le> n \<and> n < 16777216)"
  have "\<exists>h'. returning e
          (if ok then assign (\<lambda>r. r\<lparr>Color := n\<rparr>) e h
           else addError valueNotBetweenErrTemplateString
                  [StrArg ''embed color'', IntArg n, IntArg 0, IntArg 16777216] e h) = Inr (e, h') \<and>
        leaves h e b
          (if ok then []
           else [Errorf valueNotBetweenErrTemplateString
                   [StrArg ''embed color'', IntArg n, IntArg 0, IntArg 16777216]])
          (if ok then r\<lparr>Color := n\<rparr> else r) h' \<and>
        rawFields h' = rawFields h"
    using eff_guarded [OF assms(1,3,4), of "\<lambda>r. r\<lparr>Color := n\<rparr>" ok
        valueNotBetweenErrTemplateString
        "[StrArg ''embed color'', IntArg n, IntArg 0, IntArg 16777216]"]
    by auto
  then show ?thesis
    unfolding CallSetColor call.simps SetColor_def maxColorValue_def specFailures.simps
      specEmbed.simps ok_def
    by blast
next
  case (CallSetCurrentTimestamp t)
  then show ?thesis
    using eff_assign [OF assms(1,3,4), of "\<lambda>r. r\<lparr>Timestamp := UTC t\<rparr>"]
    by (auto simp: SetCurrentTimestamp_def setRawTimestamp_def)
next
  case (CallSetCustomTimestamp t)
  then show ?thesis
    using eff_assign [OF assms(1,3,4), of "\<lambda>r. r\<lparr>Timestamp := UTC t\<rparr>"]
    by (auto simp: SetCustomTimestamp_def setRawTimestamp_def)
next
  case CallInlineAllFields
  then show ?thesis
    using eff_inline [OF assms(1,3,4), of True] by (auto simp: InlineAllFields_def)
next
  case CallOutlineAllFields
  then show ?thesis
    using eff_inline [OF assms(1,3,4), of False] by (auto simp: OutlineAllFields_def)
next
  case (CallAddFields fs)
  with assms(2) have ok: "\<forall>f\<in>set fs. fieldBuilderOk h f"
    by (simp add: list_all_iff)
  from eff_addEachField [OF assms(1,3,4) ok, of "[]"] obtain h' where
    "addEachField fs e h = Inr h'"
    "leaves h e b (fieldFailures h (length (Fields r)) [] fs)
       (r\<lparr>Fields := Fields r @ map (fragmentOf h) (take (25 - length (Fields r)) fs)\<rparr>) h'"
    "rawFields h' = rawFields h"
    by auto
  with CallAddFields show ?thesis
    by (auto simp: AddFields_def returning_def)
next
  case (CallAddRawFields fs)
  with assms(2) have ok: "\<forall>f\<in>set fs. live (rawFields h) f"
    by (simp add: list_all_iff)
  from eff_addEachRawField [OF assms(1,3,4) ok] obtain h' where
    "addEachRawField fs e h = Inr h'"
    "leaves h e b (map (limitError h) (drop (25 - length (Fields r)) fs))
       (r\<lparr>Fields := Fields r @ take (25 - length (Fields r)) fs\<rparr>) h'"
    "rawFields h' = rawFields h"
    by auto
  with CallAddRawFields show ?thesis
    by (auto simp: AddRawFields_def returning_def)
next
  case (CallAddField f)
  with assms(2) have "fieldBuilderOk h f"
    by simp
  then obtain sb where sb: "load (subBuilders h) f = Inr sb" "live (rawFields h) (Fragment sb)"
    and eq: "fragmentOf h f = Fragment sb" "pendingErrors h f = errorList (SubErrors sb)"
    by (rule fieldBuilderOk_loaded)
  from eff_AddField [OF assms(1,3,4) sb] CallAddField show ?thesis
    by (auto simp: eq)
next
  case (CallAddRawField f)
  with assms(2) have "live (rawFields h) f"
    by simp
  from eff_AddRawField [OF assms(1,3,4) this] CallAddRawField show ?thesis
    by auto
next
  case (CallSetAuthor p)
  with assms(2) have "live (subBuilders h) p" by simp
  then obtain sb where sb: "load (subBuilders h) p = Inr sb"
    and eq: "fragmentOf h p = Fragment sb" "pendingErrors h p = errorList (SubErrors sb)"
    by (rule subBuilder_loaded)
  from eff_absorb [OF assms(1,3,4) sb, of "\<lambda>res r. r\<lparr>Author := res\<rparr>"] CallSetAuthor
  show ?thesis
    by (auto simp: eq SetAuthor_def SetRawAuthor_def)
next
  case (CallSetRawAuthor p)
  then show ?thesis
    using eff_assign [OF assms(1,3,4), of "\<lambda>r. r\<lparr>Author := p\<rparr>"] by (auto simp: SetRawAuthor_def)
next
  case (CallSetThumbnail p)
  with assms(2) have "live (subBuilders h) p" by simp
  then obtain sb where sb: "load (subBuilders h) p = Inr sb"
    and eq: "fragmentOf h p = Fragment sb" "pendingErrors h p = errorList (SubErrors sb)"
    by (rule subBuilder_loaded)
  from eff_absorb [OF assms(1,3,4) sb, of "\<lambda>res r. r\<lparr>Thumbnail := res\<rparr>"] CallSetThumbnail
  show ?thesis
    by (auto simp: eq SetThumbnail_def SetRawThumbnail_def)
next
  case (CallSetRawThumbnail p)
  then show ?thesis
    using eff_assign [OF assms(1,3,4), of "\<lambda>r. r\<lparr>Thumbnail := p\<rparr>"]
    by (auto simp: SetRawThumbnail_def)
next
  case (CallSetProvider p)
  with assms(2) have "live (subBuilders h) p" by simp
  then obtain sb where sb: "load (subBuilders h) p = Inr sb"
    and eq: "fragmentOf h p = Fragment sb" "pendingErrors h p = errorList (SubErrors sb)"
    by (rule subBuilder_loaded)
  have "SetProvider p e h = andThen (FinalizeSub p h) (\<lambda>((res, errs), h1).
      andThen (addAllRawErrors errs e h1) (\<lambda>h2.
      returning e (assign (\<lambda>r. r\<lparr>Provider := res\<rparr>) e h2)))"
    unfolding SetProvider_def SetRawProvider_def provider_check ..
  with eff_absorb [OF assms(1,3,4) sb, of "\<lambda>res r. r\<lparr>Provider := res\<rparr>"] CallSetProvider
  show ?thesis
    by (auto simp: eq)
next
  case (CallSetRawProvider p)
  then show ?thesis
    using eff_assign [OF assms(1,3,4), of "\<lambda>r. r\<lparr>Provider := p\<rparr>"]
    by (auto simp: SetRawProvider_def)
next
  case (CallSetFooter p)
  with assms(2) have "live (subBuilders h) p" by simp
  then obtain sb where sb: "load (subBuilders h) p = Inr sb"
    and eq: "fragmentOf h p = Fragment sb" "pendingErrors h p = errorList (SubErrors sb)"
    by (rule subBuilder_loaded)
  from eff_absorb [OF assms(1,3,4) sb, of "\<lambda>res r. r\<lparr>Footer := res\<rparr>"] CallSetFooter
  show ?thesis
    by (auto simp: eq SetFooter_def SetRawFooter_def)
next
  case (CallSetRawFooter p)
  then show ?thesis
    using eff_assign [OF assms(1,3,4), of "\<lambda>r. r\<lparr>Footer := p\<rparr>"] by (auto simp: SetRawFooter_def)
next
  case (CallSetVideo p)
  with assms(2) have "live (subBuilders h) p" by simp
  then obtain sb where sb: "load (subBuilders h) p = Inr sb"
    and eq: "fragmentOf h p = Fragment sb" "pendingErrors h p = errorList (SubErrors sb)"
    by (rule subBuilder_loaded)
  from eff_absorb [OF assms(1,3,4) sb, of "\<lambda>res r. r\<lparr>Video := res\<rparr>"] CallSetVideo
  show ?thesis
    by (auto simp: eq SetVideo_def SetRawVideo_def)
next
  case (CallSetRawVideo p)
  then show ?thesis
    using eff_assign [OF assms(1,3,4), of "\<lambda>r. r\<lparr>Video := p\<rparr>"] by (auto simp: SetRawVideo_def)
next
  case (CallSetImage p)
  with assms(2) have "live (subBuilders h) p" by simp
  then obtain sb where sb: "load (subBuilders h) p = Inr sb"
    and eq: "fragmentOf h p = Fragment sb" "pendingErrors h p = errorList (SubErrors sb)"
    by (rule subBuilder_loaded)
  from eff_absorb [OF assms(1,3,4) sb, of "\<lambda>res r. r\<lparr>Image := res\<rparr>"] CallSetImage
  show ?thesis
    by (auto simp: eq SetImage_def SetRawImage_def)
next
  case (CallSetRawImage p)
  then show ?thesis
    using eff_assign [OF assms(1,3,4), of "\<lambda>r. r\<lparr>Image := p\<rparr>"] by (auto simp: SetRawImage_def)
next
  case (CallSetType s)
  show ?thesis
    using eff_guarded [OF assms(1,3,4), of "\<lambda>r. r\<lparr>Type := s\<rparr>" "s \<in> set vt"
        invalidEmbedTypeErrTemplateString "[StrArg s]"]
    unfolding CallSetType call.simps SetType_def checkTypeValid_def
    by (cases "s \<in> set vt") auto
qed

lemma fieldCount_loaded: "rawAt h e = Inr r \<Longrightarrow> fieldCount h e = length (Fields r)"
  by (simp add: fieldCount_def)

lemma NewEmbed_wellFormed: "wellFormed (snd (NewEmbed h0)) (fst (NewEmbed h0))"
  by (simp add: wellFormed_def NewEmbed_def Let_def rawAt_def load_def nth_append zeroEmbed_def)

lemma NewEmbed_builder:
  "builderAt (snd (NewEmbed h0)) (fst (NewEmbed h0)) =
     Inr \<lparr>Embed = Some (length (rawEmbeds h0)), Errors = None\<rparr>"
  by (simp add: NewEmbed_def Let_def builderAt_def load_def)

lemma chain_effect:
  assumes "wellFormed h e" and "builderAt h e = Inr b" and "list_all (argumentsOk h) cs"
  shows "\<exists>h'. chain vt cs e h = Inr (e, h') \<and> wellFormed h' e \<and>
           builderAt h' e = Inr (b\<lparr>Errors := absorbed (Errors b) (failuresAlong vt cs e h)\<rparr>)"
  using assms
proof (induction cs arbitrary: h b)
  case Nil
  then show ?case by simp
next
  case (Cons c cs)
  from Cons.prems(1) obtain r where r: "rawAt h e = Inr r"
    by (auto simp: wellFormed_iff)
  have okc: "argumentsOk h c" and rest: "list_all (argumentsOk h) cs"
    using Cons.prems(3) by simp_all
  let ?n1 = "specFailures vt h (length (Fields r)) c"
  let ?b1 = "b\<lparr>Errors := absorbed (Errors b) ?n1\<rparr>"
  from call_effect [OF Cons.prems(1) okc Cons.prems(2) r, of vt] obtain h1 where
    step: "call vt c e h = Inr (e, h1)" and first: "leaves h e b ?n1 (specEmbed vt h r c) h1"
    by blast
  from first have wf: "wellFormed h1 e" and shape: "sameShape h h1"
    and held: "builderAt h1 e = Inr ?b1"
    by (simp_all add: leaves_def)
  have rest1: "list_all (argumentsOk h1) cs"
    using rest by (simp add: list_all_iff sameShape_argumentsOk [OF shape])
  from Cons.IH [OF wf held rest1] obtain h' where
    "chain vt cs e h1 = Inr (e, h')" "wellFormed h' e"
    "builderAt h' e = Inr (?b1\<lparr>Errors := absorbed (Errors ?b1) (failuresAlong vt cs e h1)\<rparr>)"
    by blast
  then show ?case
    using step by (auto simp: fieldCount_loaded [OF r] absorbed_append)
qed

lemma full_builder: "builderAt full (Some 0) = Inr \<lparr>Embed = Some 0, Errors = None\<rparr>"
  by (simp add: full_def builderAt_def load_def)

lemma full_raw: "rawAt full (Some 0) = Inr (zeroEmbed\<lparr>Fields := replicate 25 (Some 0)\<rparr>)"
  by (simp add: full_def rawAt_def load_def)

text \<open>
  C8 does not hold of every call. AddRawField reads \<^verbatim>\<open>field.Name\<close> to record the limit
  error, so on an embed that already holds 25 fields a nil raw field is a nil pointer
  dereference: the call panics and records nothing. The store \<open>full\<close> is reached from
  NewEmbed by 25 calls of AddRawField (\<open>full_reachable\<close>).
\<close>

theorem AddRawField_nil_panics:
  "AddRawField None (Some 0) full = Inl NilPointerDereference"
  by (simp add: AddRawField_def full_def rawAt_def load_def maxFieldCount_def returning_def)

text \<open>
  C8, amended. Every setter of the embed builder that returns, returns the handle it
  was called on, whether its check passed or failed. A setter does return when no nil
  is in its way: the handle points to a builder that wraps an embed whose attached
  fields are raw fields, as NewEmbed and the setters leave it, a raw field to attach
  is not nil, and a builder to finalize is not nil (a Field builder wrapping a raw
  field). The builder is then left in that state again and the same arguments stay in
  order, so the setters chain. What the call does is what the specification says of
  it: the error list of the builder grows by exactly the errors of \<open>specFailures\<close>, in
  order, and by nothing when there are none; the builder wraps the embed of
  \<open>specEmbed\<close>, which is the embed as it was when the check failed; and no raw field
  changes, except by InlineAllFields and OutlineAllFields.
\<close>

theorem setters_return_receiver:
  "(\<forall>e' h'. call vt c e h = Inr (e', h') \<longrightarrow> e' = e) \<and>
   (wellFormed h e \<and> argumentsOk h c \<longrightarrow>
      (\<exists>h'. call vt c e h = Inr (e, h') \<and> wellFormed h' e \<and>
            (\<forall>c'. argumentsOk h' c' = argumentsOk h c'))) \<and>
   (wellFormed h e \<and> argumentsOk h c \<and> builderAt h e = Inr b \<and> rawAt h e = Inr r \<longrightarrow>
      (\<exists>h'. call vt c e h = Inr (e, h') \<and>
            builderAt h' e =
              Inr (b\<lparr>Errors :=
                     (if specFailures vt h (length (Fields r)) c = [] then Errors b
                      else Some (errorList (Errors b) @ specFailures vt h (length (Fields r)) c))\<rparr>) \<and>
            rawAt h' e = Inr (specEmbed vt h r c) \<and>
            (c \<noteq> CallInlineAllFields \<and> c \<noteq> CallOutlineAllFields \<longrightarrow>
               rawFields h' = rawFields h))) \<and>
   wellFormed (snd (NewEmbed h0)) (fst (NewEmbed h0))"
proof (intro conjI allI impI)
  fix e' h'
  assume "call vt c e h = Inr (e', h')"
  then show "e' = e" by (rule call_returns)
next
  assume "wellFormed h e \<and> argumentsOk h c"
  then obtain h' where "call vt c e h = Inr (e, h')" "wellFormed h' e" "sameShape h h'"
    using call_ok by blast
  then show "\<exists>h'. call vt c e h = Inr (e, h') \<and> wellFormed h' e \<and>
            (\<forall>c'. argumentsOk h' c' = argumentsOk h c')"
    by (auto simp: sameShape_argumentsOk)
next
  assume "wellFormed h e \<and> argumentsOk h c \<and> builderAt h e = Inr b \<and> rawAt h e = Inr r"
  then have "wellFormed h e" "argumentsOk h c" "builderAt h e = Inr b" "rawAt h e = Inr r"
    by simp_all
  from call_effect [OF this, of vt] obtain h' where
    "call vt c e h = Inr (e, h')"
    "leaves h e b (specFailures vt h (length (Fields r)) c) (specEmbed vt h r c) h'"
    "c \<noteq> CallInlineAllFields \<and> c \<noteq> CallOutlineAllFields \<longrightarrow> rawFields h' = rawFields h"
    by blast
  then show "\<exists>h'. call vt c e h = Inr (e, h') \<and>
            builderAt h' e =
              Inr (b\<lparr>Errors :=
                     (if specFailures vt h (length (Fields r)) c = [] then Errors b
                      else Some (errorList (Errors b) @ specFailures vt h (length (Fields r)) c))\<rparr>) \<and>
            rawAt h' e = Inr (specEmbed vt h r c) \<and>
            (c \<noteq> CallInlineAllFields \<and> c \<noteq> CallOutlineAllFields \<longrightarrow>
               rawFields h' = rawFields h)"
    by (intro exI [of _ h']) (simp add: leaves_def absorbed_def)
next
  show "wellFormed (snd (NewEmbed h0)) (fst (NewEmbed h0))"
    by (rule NewEmbed_wellFormed)
qed

theorem setters_return_receiver_witness:
  "wellFormed full (Some 0) \<and> argumentsOk full (CallAddRawField (Some 1)) \<and>
   argumentsOk full (CallAddField (Some 0)) \<and>
   (\<exists>h'. call [] (CallAddRawField (Some 1)) (Some 0) full = Inr (Some 0, h') \<and>
         wellFormed h' (Some 0)) \<and>
   (\<exists>h'. call [] (CallAddField (Some 0)) (Some 0) full = Inr (Some 0, h') \<and>
         wellFormed h' (Some 0)) \<and>
   (\<exists>h'. call [] (CallSetRawFooter None) (Some 0) full = Inr (Some 0, h') \<and>
         wellFormed h' (Some 0)) \<and>
   (\<exists>h'. call [] (CallAddRawField (Some 1)) (Some 0) full = Inr (Some 0, h') \<and>
         builderAt h' (Some 0) =
           Inr \<lparr>Embed = Some 0, Errors = Some
             [Errorf fieldLimitReachedErrTemplateString [StrArg ''late'', IntArg 25]]\<rparr> \<and>
         rawAt h' (Some 0) = Inr (zeroEmbed\<lparr>Fields := replicate 25 (Some 0)\<rparr>)) \<and>
   (\<exists>h'. call [] (CallSetDescription (replicate 2049 (CHR ''x''))) (Some 0) full = Inr (Some 0, h') \<and>
         builderAt h' (Some 0) =
           Inr \<lparr>Embed = Some 0, Errors = Some
             [Errorf characterCountExceedsLimitLongErrTemplateString
                [StrArg ''embed description'', IntArg 2048, IntArg 2049]]\<rparr> \<and>
         rawAt h' (Some 0) = Inr (zeroEmbed\<lparr>Fields := replicate 25 (Some 0)\<rparr>)) \<and>
   (\<exists>h'. call [] (CallSetDescription ''short'') (Some 0) full = Inr (Some 0, h') \<and>
         builderAt h' (Some 0) = Inr \<lparr>Embed = Some 0, Errors = None\<rparr> \<and>
         rawAt h' (Some 0) =
           Inr (zeroEmbed\<lparr>Fields := replicate 25 (Some 0), Description := ''short''\<rparr>))"
proof -
  have a1: "argumentsOk full (CallAddRawField (Some 1))"
    by (simp add: full_def live_def)
  have a2: "argumentsOk full (CallAddField (Some 0))"
    by (simp add: fieldBuilderOk_def fragmentOf_def full_def live_def load_def)
  have lim: "limitError full (Some (Suc 0)) =
      Errorf fieldLimitReachedErrTemplateString [StrArg ''late'', IntArg 25]"
    by (simp add: limitError_def full_def load_def)
  show ?thesis
    using full_wellFormed a1 a2 full_builder full_raw
      setters_return_receiver [of "[]" "CallAddRawField (Some 1)" "Some 0" full
        "\<lparr>Embed = Some 0, Errors = None\<rparr>" "zeroEmbed\<lparr>Fields := replicate 25 (Some 0)\<rparr>" emptyHeap]
      setters_return_receiver [of "[]" "CallAddField (Some 0)" "Some 0" full
        "\<lparr>Embed = Some 0, Errors = None\<rparr>" "zeroEmbed\<lparr>Fields := replicate 25 (Some 0)\<rparr>" emptyHeap]
      setters_return_receiver [of "[]" "CallSetRawFooter None" "Some 0" full
        "\<lparr>Embed = Some 0, Errors = None\<rparr>" "zeroEmbed\<lparr>Fields := replicate 25 (Some 0)\<rparr>" emptyHeap]
      setters_return_receiver [of "[]" "CallSetDescription (replicate 2049 (CHR ''x''))" "Some 0" full
        "\<lparr>Embed = Some 0, Errors = None\<rparr>" "zeroEmbed\<lparr>Fields := replicate 25 (Some 0)\<rparr>" emptyHeap]
      setters_return_receiver [of "[]" "CallSetDescription ''short''" "Some 0" full
        "\<lparr>Embed = Some 0, Errors = None\<rparr>" "zeroEmbed\<lparr>Fields := replicate 25 (Some 0)\<rparr>" emptyHeap]
    by (auto simp: lim errorList_def)
qed

text \<open>
  C9. NewEmbed creates the builder with the nil error list, and in order. For every
  builder and every chain of setter calls on it that returns: the chain returns the
  handle it was called on, and the builder it leaves differs from the one it found
  only in its error list, which is nil or not empty if it was so before. With no nil
  in the way of a call, more is true. A call on a builder whose error list is nil
  leaves it nil when the call has no failure (\<open>specFailures\<close> is empty) and otherwise
  allocates it, holding exactly the failures of the call. A chain of calls leaves the
  error list as it was (nil, if it was nil) when no call of the chain had a failure,
  and otherwise leaves an allocated list, the errors held before followed by the
  failures of the calls, in order.
\<close>

theorem errors_nil_until_failure:
  "(chain vt cs e h = Inr (e', h') \<and> builderAt h e = Inr b \<longrightarrow>
      e' = e \<and>
      (\<exists>new. builderAt h' e =
         Inr (b\<lparr>Errors := (if new = [] then Errors b else Some (errorList (Errors b) @ new))\<rparr>)) \<and>
      (Errors b \<noteq> Some [] \<longrightarrow> (\<exists>b'. builderAt h' e = Inr b' \<and> Errors b' \<noteq> Some []))) \<and>
   (wellFormed h e \<and> argumentsOk h c \<and> builderAt h e = Inr b \<and> rawAt h e = Inr r \<and>
    Errors b = None \<longrightarrow>
      (\<exists>h1. call vt c e h = Inr (e, h1) \<and>
            builderAt h1 e =
              Inr (b\<lparr>Errors :=
                     (if specFailures vt h (length (Fields r)) c = [] then None
                      else Some (specFailures vt h (length (Fields r)) c))\<rparr>))) \<and>
   (wellFormed h e \<and> builderAt h e = Inr b \<and> list_all (argumentsOk h) cs \<longrightarrow>
      (\<exists>h2. chain vt cs e h = Inr (e, h2) \<and>
            builderAt h2 e =
              Inr (b\<lparr>Errors :=
                     (if failuresAlong vt cs e h = [] then Errors b
                      else Some (errorList (Errors b) @ failuresAlong vt cs e h))\<rparr>))) \<and>
   builderAt (snd (NewEmbed h0)) (fst (NewEmbed h0)) =
     Inr \<lparr>Embed = Some (length (rawEmbeds h0)), Errors = None\<rparr> \<and>
   wellFormed (snd (NewEmbed h0)) (fst (NewEmbed h0))"
proof (intro conjI impI)
  assume a: "chain vt cs e h = Inr (e', h') \<and> builderAt h e = Inr b"
  then have run: "chain vt cs e h = Inr (e', h')" and b: "builderAt h e = Inr b"
    by simp_all
  from chain_grows [OF run b] obtain new where
    same: "e' = e" and held: "builderAt h' e = Inr (b\<lparr>Errors := absorbed (Errors b) new\<rparr>)"
    by blast
  show "e' = e" by (rule same)
  show "\<exists>new. builderAt h' e =
         Inr (b\<lparr>Errors := (if new = [] then Errors b else Some (errorList (Errors b) @ new))\<rparr>)"
    using held by (auto simp: absorbed_def)
  assume "Errors b \<noteq> Some []"
  then have "absorbed (Errors b) new \<noteq> Some []"
    by (simp add: absorbed_def)
  then show "\<exists>b'. builderAt h' e = Inr b' \<and> Errors b' \<noteq> Some []"
    using held by simp
next
  assume "wellFormed h e \<and> argumentsOk h c \<and> builderAt h e = Inr b \<and> rawAt h e = Inr r \<and>
    Errors b = None"
  then have pre: "wellFormed h e" "argumentsOk h c" "builderAt h e = Inr b" "rawAt h e = Inr r"
    and nil: "Errors b = None"
    by simp_all
  from call_effect [OF pre, of vt] obtain h1 where
    "call vt c e h = Inr (e, h1)"
    "leaves h e b (specFailures vt h (length (Fields r)) c) (specEmbed vt h r c) h1"
    by blast
  then show "\<exists>h1. call vt c e h = Inr (e, h1) \<and>
            builderAt h1 e =
              Inr (b\<lparr>Errors :=
                     (if specFailures vt h (length (Fields r)) c = [] then None
                      else Some (specFailures vt h (length (Fields r)) c))\<rparr>)"
    using nil by (intro exI [of _ h1]) (simp add: leaves_def absorbed_def errorList_def)
next
  assume "wellFormed h e \<and> builderAt h e = Inr b \<and> list_all (argumentsOk h) cs"
  then have "wellFormed h e" "builderAt h e = Inr b" "list_all (argumentsOk h) cs"
    by simp_all
  from chain_effect [OF this, of vt] obtain h2 where
    "chain vt cs e h = Inr (e, h2)"
    "builderAt h2 e = Inr (b\<lparr>Errors := absorbed (Errors b) (failuresAlong vt cs e h)\<rparr>)"
    by blast
  then show "\<exists>h2. chain vt cs e h = Inr (e, h2) \<and>
            builderAt h2 e =
              Inr (b\<lparr>Errors :=
                     (if failuresAlong vt cs e h = [] then Errors b
                      else Some (errorList (Errors b) @ failuresAlong vt cs e h))\<rparr>)"
    by (intro exI [of _ h2]) (simp add: absorbed_def)
next
  show "builderAt (snd (NewEmbed h0)) (fst (NewEmbed h0)) =
     Inr \<lparr>Embed = Some (length (rawEmbeds h0)), Errors = None\<rparr>"
    by (rule NewEmbed_builder)
  show "wellFormed (snd (NewEmbed h0)) (fst (NewEmbed h0))"
    by (rule NewEmbed_wellFormed)
qed

theorem errors_nil_until_failure_witness:
  "wellFormed (snd (NewEmbed emptyHeap)) (Some 0) \<and>
   list_all (argumentsOk (snd (NewEmbed emptyHeap)))
     [CallSetTitle ''example'', CallSetColor (- 1), CallSetURL ''example.com'', CallSetType ''bogus''] \<and>
   failuresAlong [] [CallSetTitle ''example'', CallSetURL ''example.com'']
     (Some 0) (snd (NewEmbed emptyHeap)) = [] \<and>
   (\<exists>h'. chain [] [CallSetTitle ''example'', CallSetURL ''example.com'']
          (Some 0) (snd (NewEmbed emptyHeap)) = Inr (Some 0, h') \<and>
        builderAt h' (Some 0) = Inr \<lparr>Embed = Some 0, Errors = None\<rparr>) \<and>
   failuresAlong []
     [CallSetTitle ''example'', CallSetColor (- 1), CallSetURL ''example.com'', CallSetType ''bogus'']
     (Some 0) (snd (NewEmbed emptyHeap)) =
       [Errorf valueNotBetweenErrTemplateString
          [StrArg ''embed color'', IntArg (- 1), IntArg 0, IntArg 16777216],
        Errorf invalidEmbedTypeErrTemplateString [StrArg ''bogus'']] \<and>
   (\<exists>h'. chain []
          [CallSetTitle ''example'', CallSetColor (- 1), CallSetURL ''example.com'', CallSetType ''bogus'']
          (Some 0) (snd (NewEmbed emptyHeap)) = Inr (Some 0, h') \<and>
        builderAt h' (Some 0) =
          Inr \<lparr>Embed = Some 0, Errors = Some
            [Errorf valueNotBetweenErrTemplateString
               [StrArg ''embed color'', IntArg (- 1), IntArg 0, IntArg 16777216],
             Errorf invalidEmbedTypeErrTemplateString [StrArg ''bogus'']]\<rparr>)"
proof -
  have wf: "wellFormed (snd (NewEmbed emptyHeap)) (Some 0)"
    using NewEmbed_wellFormed [of emptyHeap] by (simp add: NewEmbed_def emptyHeap_def)
  have ok1: "list_all (argumentsOk (snd (NewEmbed emptyHeap)))
     [CallSetTitle ''example'', CallSetURL ''example.com'']"
    by simp
  have ok2: "list_all (argumentsOk (snd (NewEmbed emptyHeap)))
     [CallSetTitle ''example'', CallSetColor (- 1), CallSetURL ''example.com'', CallSetType ''bogus'']"
    by simp
  have f1: "failuresAlong [] [CallSetTitle ''example'', CallSetURL ''example.com'']
     (Some 0) (snd (NewEmbed emptyHeap)) = []"
    by (simp add: NewEmbed_def emptyHeap_def SetTitle_def SetURL_def returning_def assign_def
        load_def modify_def lowerCharLimit_def)
  have f2: "failuresAlong []
     [CallSetTitle ''example'', CallSetColor (- 1), CallSetURL ''example.com'', CallSetType ''bogus'']
     (Some 0) (snd (NewEmbed emptyHeap)) =
       [Errorf valueNotBetweenErrTemplateString
          [StrArg ''embed color'', IntArg (- 1), IntArg 0, IntArg 16777216],
        Errorf invalidEmbedTypeErrTemplateString [StrArg ''bogus'']]"
    by (simp add: NewEmbed_def emptyHeap_def SetTitle_def SetColor_def SetURL_def SetType_def
        returning_def assign_def addError_def addRawError_def load_def modify_def
        lowerCharLimit_def maxColorValue_def checkTypeValid_def errorList_def)
  show ?thesis
    using wf ok1 ok2 fresh_builder
      errors_nil_until_failure [of "[]" "[CallSetTitle ''example'', CallSetURL ''example.com'']"
        "Some 0" "snd (NewEmbed emptyHeap)" "Some 0" emptyHeap "\<lparr>Embed = Some 0, Errors = None\<rparr>"
        "CallSetURL ''u''" zeroEmbed emptyHeap]
      errors_nil_until_failure [of "[]"
        "[CallSetTitle ''example'', CallSetColor (- 1), CallSetURL ''example.com'', CallSetType ''bogus'']"
        "Some 0" "snd (NewEmbed emptyHeap)" "Some 0" emptyHeap "\<lparr>Embed = Some 0, Errors = None\<rparr>"
        "CallSetURL ''u''" zeroEmbed emptyHeap]
    unfolding f1 f2
    by (simp add: errorList_def)
qed

end
